theory Spec2Isabelle
  imports Main "HOL-Library.Word"
begin

unbundle bit_operations_syntax

section \<open>Machine integers\<close>

text \<open>
  \<open>uint8_t\<close>, \<open>uint16_t\<close> and \<open>unsigned int\<close> are words of 8, 16 and 32 bits; their
  arithmetic wraps. An \<open>int32_t\<close> is a 32-bit word read with \<open>sint\<close>. Signed \<open>int\<close>
  values that the program only uses as array indices and loop counters (they stay far
  below \<open>2^31\<close>, being built from 8- and 16-bit fields) are HOL integers.
\<close>

type_synonym u8 = "8 word"
type_synonym u16 = "16 word"
type_synonym u32 = "32 word"

section \<open>Timestamp conversion and BCD decoding\<close>

text \<open>
  \<^verbatim>\<open>
  int32_t frames_to_timestamp_ms(unsigned int num_frames, unsigned int fps)
  {
    auto factor = fps == 30 ? 1001 : 1000;
    return static_cast<int32_t>(factor * num_frames / (fps ? fps : 1));
  }
  \<close>
  \<open>factor\<close> is an \<open>int\<close>; multiplied with an \<open>unsigned int\<close> it is converted to
  \<open>unsigned int\<close>, so product and quotient are unsigned 32-bit operations. The cast to
  \<open>int32_t\<close> keeps the bits: the result is the word, to be read with \<open>sint\<close>.
\<close>

definition frames_to_timestamp_ms :: "u32 \<Rightarrow> u32 \<Rightarrow> u32" where
  "frames_to_timestamp_ms num_frames fps =
     (let factor = (if fps = 30 then 1001 else 1000) :: u32
      in (factor * num_frames) div (if fps \<noteq> 0 then fps else 1))"

text \<open>
  \<^verbatim>\<open>
  template <typename T> constexpr T from_bcd(T val)
  {
    return (((val & 0xf0) >> 4) * 10) + (val & 0x0f);
  }
  \<close>
  The only instantiation in the program is \<open>T = uint8_t\<close> (the fields of a
  \<open>dvd_time_t\<close>). The operand is promoted to \<open>int\<close>, the expression is computed
  there, and the result is converted back to \<open>uint8_t\<close>.
\<close>

definition from_bcd :: "u8 \<Rightarrow> u8" where
  "from_bcd val =
     (let v = (ucast val :: u32)
      in ucast (drop_bit 4 (v AND 0xf0) * 10 + (v AND 0x0f)))"

section \<open>Navigation data\<close>

text \<open>
  Modelled from the spec: the navigation tables of section 6, whose C declarations
  (\<open>dvd_time_t\<close>, \<open>cell_playback_t\<close>, \<open>pgc_t\<close>, \<open>pgci_srp_t\<close>, \<open>pgcit_t\<close>,
  \<open>ptt_info_t\<close>, \<open>ttu_t\<close>, \<open>vts_ptt_srpt_t\<close>, \<open>title_info_t\<close>, \<open>tt_srpt_t\<close>,
  \<open>ifo_handle_t\<close>) live in the headers of libdvdread and not in this repository. Only
  the fields the program reads are kept, with the widths of those headers: time fields,
  program map entries, \<open>title_set_nr\<close> and \<open>vts_ttn\<close> are 8 bits wide; \<open>pgcn\<close>,
  \<open>pgn\<close>, \<open>nr_of_ptts\<close> and \<open>nr_of_srpts\<close> are 16 bits wide. A C array reached
  through a pointer is a list; reading it outside the list is undefined behaviour.
  The field \<open>title\<close> of \<open>vts_ptt_srpt_t\<close> is named \<open>ttu\<close> here, since \<open>tt_srpt_t\<close>
  has a field \<open>title\<close> too.
\<close>

record dvd_time_t =
  hour :: u8
  minute :: u8
  second :: u8
  frame_u :: u8

record cell_playback_t =
  playback_time :: dvd_time_t

record pgc_t =
  program_map :: "u8 list"
  cell_playback :: "cell_playback_t list"

record pgci_srp_t =
  pgc :: pgc_t

record pgcit_t =
  pgci_srp :: "pgci_srp_t list"

record ptt_info_t =
  pgcn :: u16
  pgn :: u16

record ttu_t =
  ptt :: "ptt_info_t list"

record vts_ptt_srpt_t =
  ttu :: "ttu_t list"

record title_info_t =
  nr_of_ptts :: u16
  title_set_nr :: u8
  vts_ttn :: u8

record tt_srpt_t =
  nr_of_srpts :: u16
  title :: "title_info_t list"

record ifo_handle_t =
  tt_srpt :: tt_srpt_t
  vts_ptt_srpt :: vts_ptt_srpt_t
  vts_pgcit :: pgcit_t

text \<open>
  An opened DVD structure answers \<open>ifoOpen\<close> for a title set number (0 is the video
  manager) with a handle or with a null pointer.
\<close>

type_synonym dvd_reader_t = "int \<Rightarrow> ifo_handle_t option"

section \<open>Errors\<close>

text \<open>
  The program throws \<open>libdvdread_exception\<close> where the library cannot open something.
  An array read out of range is undefined behaviour in C++: the model stops there with
  \<open>Undefined\<close> and says nothing about what follows.
\<close>

datatype libdvdread_exception =
  Failed_to_open_DVD_structure
  | Failed_to_open_IFO_for_title int

datatype error = Throw libdvdread_exception | Undefined

definition and_then :: "error + 'a \<Rightarrow> ('a \<Rightarrow> error + 'b) \<Rightarrow> error + 'b" where
  "and_then r f = (case r of Inl e \<Rightarrow> Inl e | Inr x \<Rightarrow> f x)"

definition array_at :: "'a list \<Rightarrow> int \<Rightarrow> error + 'a" where
  "array_at xs i =
     (if 0 \<le> i \<and> i < int (length xs) then Inr (xs ! nat i) else Inl Undefined)"

text \<open>
  \<^verbatim>\<open>
  auto ifo_open(dvd_reader_t &dvd, int title)
  {
    if (auto const ifo = ::ifoOpen(&dvd, title)) { return ifo_uptr{...}; }
    else { throw libdvdread_exception(std::format("Failed to open IFO for title {}", title)); }
  }
  \<close>
\<close>

definition ifo_open :: "dvd_reader_t \<Rightarrow> int \<Rightarrow> error + ifo_handle_t" where
  "ifo_open reader title_no =
     (case reader title_no of
        Some ifo \<Rightarrow> Inr ifo
      | None \<Rightarrow> Inl (Throw (Failed_to_open_IFO_for_title title_no)))"

section \<open>The chapter document writer\<close>

text \<open>
  The writer streams markup to \<open>std::cout\<close>. The model keeps one element per block of
  markup that a member function writes, in the order written. The random 64-bit
  identifiers and the rendering of a timestamp as text are left out: a chapter atom
  carries the \<open>int32_t\<close> timestamp it was called with and the chapter number printed in
  its label. The members \<open>stream_\<close> and \<open>chapter_num_\<close> lose their last underscore.
\<close>

datatype xml_element =
  Chapters_open
  | EditionEntry_open
  | ChapterAtom u32 u32
  | EditionEntry_close
  | Chapters_close

record matroska_chapter_xml_writer =
  stream :: "xml_element list"
  chapter_num :: u32

text \<open>The constructor writes the document's opening; \<open>chapter_num\<close> starts at 1.\<close>

definition writer_construct :: "xml_element list \<Rightarrow> matroska_chapter_xml_writer" where
  "writer_construct out = \<lparr>stream = out @ [Chapters_open], chapter_num = 1\<rparr>"

text \<open>The destructor writes the closing tag; what is left is the stream.\<close>

definition writer_destruct :: "matroska_chapter_xml_writer \<Rightarrow> xml_element list" where
  "writer_destruct w = stream w @ [Chapters_close]"

definition on_title_start :: "matroska_chapter_xml_writer \<Rightarrow> matroska_chapter_xml_writer" where
  "on_title_start w = w\<lparr>stream := stream w @ [EditionEntry_open], chapter_num := 1\<rparr>"

definition on_title_end :: "matroska_chapter_xml_writer \<Rightarrow> matroska_chapter_xml_writer" where
  "on_title_end w = w\<lparr>stream := stream w @ [EditionEntry_close]\<rparr>"

definition on_chapter_start ::
  "u32 \<Rightarrow> matroska_chapter_xml_writer \<Rightarrow> matroska_chapter_xml_writer" where
  "on_chapter_start timestamp_ms w =
     w\<lparr>stream := stream w @ [ChapterAtom timestamp_ms (chapter_num w)],
       chapter_num := chapter_num w + 1\<rparr>"

section \<open>The chapter boundary walker\<close>

text \<open>
  The body of the loop over the cells of a chapter (lines 230 to 236). The state is the
  pair \<open>(fps, cur_frames)\<close>, both \<open>unsigned int\<close>.
  \<^verbatim>\<open>
      auto dt = &cur_pgc->cell_playback[cur_cell].playback_time;
      auto hour = from_bcd(dt->hour);
      auto minute = from_bcd(dt->minute);
      auto second = from_bcd(dt->second);
      fps = ((dt->frame_u & 0xc0) >> 6) == 1 ? 25 : 30; // by definition
      cur_frames += ((hour * 60 * 60) + minute * 60 + second) * fps;
      cur_frames += ((dt->frame_u & 0x30) >> 4) * 10 + (dt->frame_u & 0x0f);
  \<close>
  The sums of the decoded fields are \<open>int\<close> expressions of non-negative values below
  \<open>2^20\<close>, converted to \<open>unsigned int\<close> when they meet \<open>fps\<close> and \<open>cur_frames\<close>; as
  32-bit words they have the same value.
\<close>

definition cell_fps :: "dvd_time_t \<Rightarrow> u32" where
  "cell_fps dt =
     (if drop_bit 6 ((ucast (frame_u dt) :: u32) AND 0xc0) = 1 then 25 else 30)"

definition cell_body :: "dvd_time_t \<Rightarrow> u32 \<times> u32 \<Rightarrow> u32 \<times> u32" where
  "cell_body dt st =
     (let hour = from_bcd (hour dt);
          minute = from_bcd (minute dt);
          second = from_bcd (second dt);
          fps = cell_fps dt;
          cur_frames = snd st;
          cur_frames = cur_frames
            + ((ucast hour * 60 * 60) + ucast minute * 60 + ucast second) * fps;
          cur_frames = cur_frames
            + (drop_bit 4 ((ucast (frame_u dt) :: u32) AND 0x30) * 10
               + ((ucast (frame_u dt) :: u32) AND 0x0f))
      in (fps, cur_frames))"

text \<open>
  \<^verbatim>\<open>
    for (auto cur_cell = start_cell; cur_cell <= end_cell; cur_cell++) { ... }
  \<close>
  \<open>cur_cell\<close> and \<open>end_cell\<close> are \<open>int\<close>: a range whose end is below its start (also a
  negative end) runs no iteration.
\<close>

function cell_loop :: "pgc_t \<Rightarrow> int \<Rightarrow> int \<Rightarrow> u32 \<times> u32 \<Rightarrow> error + (u32 \<times> u32)" where
  "cell_loop cur_pgc cur_cell end_cell st =
     (if cur_cell \<le> end_cell then
        (case array_at (cell_playback cur_pgc) cur_cell of
           Inl e \<Rightarrow> Inl e
         | Inr c \<Rightarrow> cell_loop cur_pgc (cur_cell + 1) end_cell (cell_body (playback_time c) st))
      else Inr st)"
  by pat_completeness auto
termination
  by (relation "measure (\<lambda>(p, c, e, s). nat (e + 1 - c))") auto

text \<open>
  Lines 218 to 221, and again 222 to 225: a chapter marker is resolved to its program
  chain and to the entry of that chain's program map.
  \<^verbatim>\<open>
    auto pgc_id = vts_ptt_srpt->title[ttn - 1].ptt[chapter].pgcn;
    auto pgn = vts_ptt_srpt->title[ttn - 1].ptt[chapter].pgn;
    auto cur_pgc = vts->vts_pgcit->pgci_srp[pgc_id - 1].pgc;
    ... cur_pgc->program_map[pgn - 1] ...
  \<close>
\<close>

definition marker_entry :: "ifo_handle_t \<Rightarrow> u8 \<Rightarrow> int \<Rightarrow> error + (pgc_t \<times> u8)" where
  "marker_entry vts ttn chapter =
     and_then (array_at (ttu (vts_ptt_srpt vts)) (uint ttn - 1)) (\<lambda>t.
     and_then (array_at (ptt t) chapter) (\<lambda>p.
     and_then (array_at (pgci_srp (vts_pgcit vts)) (uint (pgcn p) - 1)) (\<lambda>srp.
     and_then (array_at (program_map (pgc srp)) (uint (pgn p) - 1)) (\<lambda>entry.
     Inr (pgc srp, entry)))))"

text \<open>
  One iteration of the loop over the chapters, up to the update of \<open>overall_frames\<close>
  (lines 218 to 239). The state is \<open>(overall_frames, fps)\<close>. The cells are read from
  the program chain of the next marker, which is what \<open>cur_pgc\<close> holds when the inner
  loop runs.
\<close>

definition chapter_body :: "ifo_handle_t \<Rightarrow> u8 \<Rightarrow> int \<Rightarrow> u32 \<times> u32 \<Rightarrow> error + (u32 \<times> u32)" where
  "chapter_body vts ttn chapter st =
     and_then (marker_entry vts ttn chapter) (\<lambda>m.
     and_then (marker_entry vts ttn (chapter + 1)) (\<lambda>m'.
       let start_cell = uint (snd m) - 1;
           cur_pgc = fst m';
           end_cell = uint (snd m') - 2
       in and_then (cell_loop cur_pgc start_cell end_cell (snd st, 0)) (\<lambda>c.
            Inr (fst st + snd c, fst c))))"

text \<open>
  \<^verbatim>\<open>
  for (auto chapter = 0; chapter < vmg.tt_srpt->title[title].nr_of_ptts - 1; chapter++)
  {
    ...
    overall_frames += cur_frames;
    writer.on_chapter_start(frames_to_timestamp_ms(overall_frames, fps));
  }
  \<close>
  \<open>nr_of_ptts\<close> is promoted to \<open>int\<close> before the subtraction, so a count of 0 gives
  the bound \<open>-1\<close> and no iteration.
\<close>

function chapter_loop ::
  "ifo_handle_t \<Rightarrow> u16 \<Rightarrow> u8 \<Rightarrow> int \<Rightarrow> u32 \<times> u32 \<Rightarrow> matroska_chapter_xml_writer
   \<Rightarrow> error + matroska_chapter_xml_writer" where
  "chapter_loop vts nr ttn chapter st writer =
     (if chapter < uint nr - 1 then
        (case chapter_body vts ttn chapter st of
           Inl e \<Rightarrow> Inl e
         | Inr st' \<Rightarrow>
             chapter_loop vts nr ttn (chapter + 1) st'
               (on_chapter_start (frames_to_timestamp_ms (fst st') (snd st')) writer))
      else Inr writer)"
  by pat_completeness auto
termination
  by (relation "measure (\<lambda>(v, nr, t, c, s, w). nat (uint nr - 1 - c))") auto

text \<open>
  \<^verbatim>\<open>
  template <typename Writer>
  void get_chapters_for_title(dvd_reader_t &dvd, ifo_handle_t &vmg, int title, Writer &writer)
  {
    auto vts = ifo_open(dvd, vmg.tt_srpt->title[title].title_set_nr);
    writer.on_title_start();
    writer.on_chapter_start(0);
    auto ttn = vmg.tt_srpt->title[title].vts_ttn;
    auto vts_ptt_srpt = vts->vts_ptt_srpt;
    auto overall_frames = 0u;
    auto fps = 0u;
    for (...) { ... }
    writer.on_title_end();
  }
  \<close>
  An exception can only leave the function from \<open>ifo_open\<close>, before anything is written.
  The parameters \<open>dvd\<close> and \<open>title\<close> are named \<open>reader\<close> and \<open>title_no\<close>: the
  first is an operator of HOL, the second a field of \<open>tt_srpt_t\<close>.
\<close>

definition get_chapters_for_title ::
  "dvd_reader_t \<Rightarrow> ifo_handle_t \<Rightarrow> int \<Rightarrow> matroska_chapter_xml_writer
   \<Rightarrow> error + matroska_chapter_xml_writer" where
  "get_chapters_for_title reader vmg title_no writer =
     and_then (array_at (title (tt_srpt vmg)) title_no) (\<lambda>ti.
     and_then (ifo_open reader (uint (title_set_nr ti))) (\<lambda>vts.
       let writer = on_title_start writer;
           writer = on_chapter_start 0 writer;
           ttn = vts_ttn ti
       in and_then (chapter_loop vts (nr_of_ptts ti) ttn 0 (0, 0) writer) (\<lambda>writer.
            Inr (on_title_end writer))))"

section \<open>The command line driver\<close>

text \<open>
  What \<open>main\<close> sends to the diagnostic stream, one value per message. The messages of
  the library's logger, which its destructor reports after a failed run, are left out.
\<close>

datatype diagnostic =
  Usage
  | Title_cannot_be_negative
  | Could_not_convert
  | Title_requested u32 u16
  | DVD_read_error libdvdread_exception

record process =
  exit_code :: int
  cout :: "xml_element list"
  cerr :: "diagnostic list"

text \<open>
  \<open>std::stoi(argv[2])\<close> returns an \<open>int\<close> or throws; the model takes its outcome as
  input.
  \<^verbatim>\<open>
      auto title_parsed = std::stoi(argv[2]);
      if (title_parsed < 0) { std::cerr << "Title cannot be a negative integer.\n"; return 1; }
      title = static_cast<unsigned>(title_parsed);
    ...
    catch (...) { std::cerr << "Could not convert " << argv[2] << " to integer\n"; return 1; }
  \<close>
\<close>

datatype stoi_result = Stoi_throws | Stoi u32

definition parse_title :: "stoi_result \<Rightarrow> diagnostic + u32" where
  "parse_title r =
     (case r of
        Stoi_throws \<Rightarrow> Inl Could_not_convert
      | Stoi title_parsed \<Rightarrow>
          if sint title_parsed < 0 then Inl Title_cannot_be_negative else Inr title_parsed)"

text \<open>
  \<open>dvd_open\<close> and \<open>DVDOpen2\<close>: the structure under the path opens or it does not.
\<close>

definition dvd_open :: "dvd_reader_t option \<Rightarrow> error + dvd_reader_t" where
  "dvd_open path =
     (case path of
        Some reader \<Rightarrow> Inr reader
      | None \<Rightarrow> Inl (Throw Failed_to_open_DVD_structure))"

text \<open>
  \<^verbatim>\<open>
      for (auto t = 0u; t < vmg->tt_srpt->nr_of_srpts; ++t)
      {
        get_chapters_for_title(*dvd, *vmg, t, writer);
      }
  \<close>
  The loop returns the writer as it stands when the loop ends or an error leaves it.
\<close>

function titles_loop ::
  "dvd_reader_t \<Rightarrow> ifo_handle_t \<Rightarrow> u32 \<Rightarrow> matroska_chapter_xml_writer
   \<Rightarrow> matroska_chapter_xml_writer \<times> error option" where
  "titles_loop reader vmg t writer =
     (if t < ucast (nr_of_srpts (tt_srpt vmg)) then
        (case get_chapters_for_title reader vmg (sint t) writer of
           Inl e \<Rightarrow> (writer, Some e)
         | Inr writer' \<Rightarrow> titles_loop reader vmg (t + 1) writer')
      else (writer, None))"
  by pat_completeness auto
termination
proof (relation "measure (\<lambda>(r, vmg, t, w). 65536 - unat t)")
  show "wf (measure (\<lambda>(r, vmg, t, w). 65536 - unat t))"
    by simp
next
  fix reader :: dvd_reader_t and vmg :: ifo_handle_t and t :: u32
    and writer x2 :: matroska_chapter_xml_writer
  assume lt: "t < ucast (nr_of_srpts (tt_srpt vmg))"
  have "unat (ucast (nr_of_srpts (tt_srpt vmg)) :: u32) < 65536"
    using unsigned_less [of "nr_of_srpts (tt_srpt vmg)", where ?'a = nat]
    by (simp add: unsigned_ucast_eq take_bit_eq_mod)
  with lt have small: "unat t < 65535"
    by (simp add: word_less_nat_alt)
  then have "unat (t + 1) = unat t + 1"
    by (simp add: unat_word_ariths)
  with small show "((reader, vmg, t + 1, x2), (reader, vmg, t, writer))
      \<in> measure (\<lambda>(r, vmg, t, w). 65536 - unat t)"
    by simp
qed

text \<open>
  The \<open>try\<close> block of \<open>main\<close> with its handlers. The writer lives in the branch that
  creates it, so its destructor closes the document when the branch is left, also by an
  exception. \<open>None\<close> stands for a run that met undefined behaviour.
  \<^verbatim>\<open>
    auto dvd = dvd_open(argv[1], logger);
    auto vmg = ifo_open(*dvd, 0);
    if (title == 0u) { ... all titles ... }
    else
    {
      if (title >= vmg->tt_srpt->nr_of_srpts)
      {
        std::cerr << "Title " << title << " requested, but DVD has "
                  << vmg->tt_srpt->nr_of_srpts << " titles.\n";
        return 1;
      }
      auto writer = matroska_chapter_xml_writer{std::cout};
      get_chapters_for_title(*dvd, *vmg, title, writer);
    }
  \<close>
\<close>

definition finish :: "matroska_chapter_xml_writer \<times> error option \<Rightarrow> process option" where
  "finish r =
     (case snd r of
        None \<Rightarrow> Some \<lparr>exit_code = 0, cout = writer_destruct (fst r), cerr = []\<rparr>
      | Some (Throw ex) \<Rightarrow>
          Some \<lparr>exit_code = 1, cout = writer_destruct (fst r), cerr = [DVD_read_error ex]\<rparr>
      | Some Undefined \<Rightarrow> None)"

definition try_block :: "dvd_reader_t option \<Rightarrow> u32 \<Rightarrow> process option" where
  "try_block path title_sel =
     (case and_then (dvd_open path) (\<lambda>reader.
           and_then (ifo_open reader 0) (\<lambda>vmg. Inr (reader, vmg))) of
        Inl (Throw ex) \<Rightarrow> Some \<lparr>exit_code = 1, cout = [], cerr = [DVD_read_error ex]\<rparr>
      | Inl Undefined \<Rightarrow> None
      | Inr (reader, vmg) \<Rightarrow>
          if title_sel = 0 then
            finish (titles_loop reader vmg 0 (writer_construct []))
          else if title_sel \<ge> ucast (nr_of_srpts (tt_srpt vmg)) then
            Some \<lparr>exit_code = 1, cout = [],
                  cerr = [Title_requested title_sel (nr_of_srpts (tt_srpt vmg))]\<rparr>
          else
            (let writer = writer_construct []
             in case get_chapters_for_title reader vmg (sint title_sel) writer of
                  Inl e \<Rightarrow> finish (writer, Some e)
                | Inr writer' \<Rightarrow> finish (writer', None)))"

text \<open>
  \<^verbatim>\<open>
  if (!(argc == 2 || argc == 3)) { std::cerr << "Usage : " ...; return 1; }
  auto title = unsigned{};
  if (argc == 3) { ... }
  \<close>
\<close>

definition main :: "nat \<Rightarrow> stoi_result \<Rightarrow> dvd_reader_t option \<Rightarrow> process option" where
  "main argc arg2 path =
     (if \<not> (argc = 2 \<or> argc = 3) then
        Some \<lparr>exit_code = 1, cout = [], cerr = [Usage]\<rparr>
      else
        (case (if argc = 3 then parse_title arg2 else Inr 0) of
           Inl d \<Rightarrow> Some \<lparr>exit_code = 1, cout = [], cerr = [d]\<rparr>
         | Inr title_sel \<Rightarrow> try_block path title_sel))"

section \<open>Quantities of the statements\<close>

text \<open>
  What one cell adds to \<open>cur_frames\<close> in lines 235 and 236, as the program computes
  it, and the same amount as a natural number: the decoded time in seconds times the
  rate of the cell, plus the frame field, whose tens digit is the two bits 5 and 4 of
  \<open>frame_u\<close> and whose units digit is its low nibble.
\<close>

definition cell_frames :: "dvd_time_t \<Rightarrow> u32" where
  "cell_frames dt =
     (ucast (from_bcd (hour dt)) * 60 * 60 + ucast (from_bcd (minute dt)) * 60
        + ucast (from_bcd (second dt))) * cell_fps dt
     + (drop_bit 4 ((ucast (frame_u dt) :: u32) AND 0x30) * 10
        + ((ucast (frame_u dt) :: u32) AND 0x0f))"

definition frame_field :: "u8 \<Rightarrow> nat" where
  "frame_field b = 10 * (unat b div 16 mod 4) + unat b mod 16"

definition cell_frames_nat :: "dvd_time_t \<Rightarrow> nat" where
  "cell_frames_nat dt =
     (unat (from_bcd (hour dt)) * 3600 + unat (from_bcd (minute dt)) * 60
        + unat (from_bcd (second dt))) * unat (cell_fps dt)
     + frame_field (frame_u dt)"

text \<open>
  The cells with the indices \<open>start_cell\<close> to \<open>end_cell\<close>, both included, and the
  cells that the walker reads for a chapter: those of the next marker's program chain,
  from the entry of this marker minus one to the entry of the next marker minus two.
\<close>

definition cells_between :: "cell_playback_t list \<Rightarrow> int \<Rightarrow> int \<Rightarrow> cell_playback_t list" where
  "cells_between cells start_cell end_cell = map (\<lambda>i. cells ! nat i) [start_cell..end_cell]"

definition chapter_cells :: "ifo_handle_t \<Rightarrow> u8 \<Rightarrow> int \<Rightarrow> cell_playback_t list" where
  "chapter_cells vts ttn chapter =
     (case marker_entry vts ttn chapter of
        Inl e \<Rightarrow> []
      | Inr m \<Rightarrow>
          (case marker_entry vts ttn (chapter + 1) of
             Inl e \<Rightarrow> []
           | Inr m' \<Rightarrow> cells_between (cell_playback (fst m')) (uint (snd m) - 1) (uint (snd m') - 2)))"

text \<open>
  The frames of a chapter and of the chapters of a title, counted without wrap-around,
  and the statement that every cell read for a chapter, or for a title, carries the
  rate \<open>r\<close>.
\<close>

definition chapter_frames :: "ifo_handle_t \<Rightarrow> u8 \<Rightarrow> nat \<Rightarrow> nat" where
  "chapter_frames vts ttn k =
     sum_list (map (\<lambda>c. cell_frames_nat (playback_time c)) (chapter_cells vts ttn (int k)))"

definition title_frames :: "ifo_handle_t \<Rightarrow> u8 \<Rightarrow> u16 \<Rightarrow> nat" where
  "title_frames vts ttn nr = sum_list (map (chapter_frames vts ttn) [0..<nat (uint nr - 1)])"

definition chapter_rate_is :: "ifo_handle_t \<Rightarrow> u8 \<Rightarrow> u32 \<Rightarrow> nat \<Rightarrow> bool" where
  "chapter_rate_is vts ttn r k =
     list_all (\<lambda>c. cell_fps (playback_time c) = r) (chapter_cells vts ttn (int k))"

definition walk_single_rate :: "ifo_handle_t \<Rightarrow> u8 \<Rightarrow> u16 \<Rightarrow> u32 \<Rightarrow> bool" where
  "walk_single_rate vts ttn nr r = list_all (chapter_rate_is vts ttn r) [0..<nat (uint nr - 1)]"

text \<open>The timestamps of the chapter atoms of a piece of output, in order, as \<open>int32_t\<close>.\<close>

fun chapter_starts :: "xml_element list \<Rightarrow> int list" where
  "chapter_starts [] = []"
| "chapter_starts (ChapterAtom timestamp_ms n # xs) = sint timestamp_ms # chapter_starts xs"
| "chapter_starts (x # xs) = chapter_starts xs"

text \<open>
  The chapter timestamps of a title as a fold over its consecutive pairs of markers,
  in the words of the specification: the state is the cumulative frame counter and the
  captured frame rate; each pair adds the frames of its cells to the counter, takes the
  rate of its last cell when it has a cell, and yields the conversion of the updated
  counter at the captured rate.
\<close>

fun cumulative_walk :: "ifo_handle_t \<Rightarrow> u8 \<Rightarrow> nat list \<Rightarrow> u32 \<times> u32 \<Rightarrow> u32 list" where
  "cumulative_walk vts ttn [] st = []"
| "cumulative_walk vts ttn (k # ks) st =
     (let cells = chapter_cells vts ttn (int k);
          overall_frames = fst st + sum_list (map (\<lambda>c. cell_frames (playback_time c)) cells);
          fps = (if cells = [] then snd st else cell_fps (playback_time (last cells)))
      in frames_to_timestamp_ms overall_frames fps
           # cumulative_walk vts ttn ks (overall_frames, fps))"

section \<open>Example discs\<close>

text \<open>
  A cell with the four bytes of its playback time. The rate bits \<open>11\<close> of a \<open>frame_u\<close>
  byte (\<open>0xC0\<close>) stand for 30 frames per second, \<open>01\<close> (\<open>0x40\<close>) for 25.
\<close>

definition cell :: "u8 \<Rightarrow> u8 \<Rightarrow> u8 \<Rightarrow> u8 \<Rightarrow> cell_playback_t" where
  "cell h m s f = \<lparr>playback_time = \<lparr>hour = h, minute = m, second = s, frame_u = f\<rparr>\<rparr>"

text \<open>
  A disc with one title set and two titles. The first title has one chapter marker.
  The second has three: its first chapter is made of three cells of 100, 200 and 50
  frames (3 s 10 frames, 6 s 20 frames, 1 s 20 frames at rate 30), its second chapter of
  one cell of 300 frames.
\<close>

definition example_vts :: ifo_handle_t where
  "example_vts =
     \<lparr>tt_srpt = \<lparr>nr_of_srpts = 0, title = []\<rparr>,
      vts_ptt_srpt = \<lparr>ttu =
        [\<lparr>ptt = [\<lparr>pgcn = 2, pgn = 1\<rparr>]\<rparr>,
         \<lparr>ptt = [\<lparr>pgcn = 1, pgn = 1\<rparr>, \<lparr>pgcn = 1, pgn = 2\<rparr>, \<lparr>pgcn = 1, pgn = 3\<rparr>]\<rparr>]\<rparr>,
      vts_pgcit = \<lparr>pgci_srp =
        [\<lparr>pgc = \<lparr>program_map = [1, 4, 5],
                  cell_playback =
                    [cell 0 0 0x03 0xD0, cell 0 0 0x06 0xE0, cell 0 0 0x01 0xE0,
                     cell 0 0 0x10 0xC0, cell 0 0 0x05 0xC0]\<rparr>\<rparr>,
         \<lparr>pgc = \<lparr>program_map = [1], cell_playback = [cell 0 0x01 0 0xC0]\<rparr>\<rparr>]\<rparr>\<rparr>"

definition example_vmg :: ifo_handle_t where
  "example_vmg =
     \<lparr>tt_srpt = \<lparr>nr_of_srpts = 2,
        title = [\<lparr>nr_of_ptts = 1, title_set_nr = 1, vts_ttn = 1\<rparr>,
                 \<lparr>nr_of_ptts = 3, title_set_nr = 1, vts_ttn = 2\<rparr>]\<rparr>,
      vts_ptt_srpt = \<lparr>ttu = []\<rparr>,
      vts_pgcit = \<lparr>pgci_srp = []\<rparr>\<rparr>"

definition example_disc :: dvd_reader_t where
  "example_disc n = (if n = 0 then Some example_vmg else if n = 1 then Some example_vts else None)"

text \<open>
  A disc with one title of three chapter markers at rate 30, whose first chapter is one
  cell of 39 hours and whose second chapter is one cell of one hour.
\<close>

definition long_vts :: ifo_handle_t where
  "long_vts =
     \<lparr>tt_srpt = \<lparr>nr_of_srpts = 0, title = []\<rparr>,
      vts_ptt_srpt = \<lparr>ttu =
        [\<lparr>ptt = [\<lparr>pgcn = 1, pgn = 1\<rparr>, \<lparr>pgcn = 1, pgn = 2\<rparr>, \<lparr>pgcn = 1, pgn = 3\<rparr>]\<rparr>]\<rparr>,
      vts_pgcit = \<lparr>pgci_srp =
        [\<lparr>pgc = \<lparr>program_map = [1, 2, 3],
                  cell_playback =
                    [cell 0x39 0 0 0xC0, cell 0x01 0 0 0xC0, cell 0 0x30 0 0xC0]\<rparr>\<rparr>]\<rparr>\<rparr>"

definition long_vmg :: ifo_handle_t where
  "long_vmg =
     \<lparr>tt_srpt = \<lparr>nr_of_srpts = 1,
        title = [\<lparr>nr_of_ptts = 3, title_set_nr = 1, vts_ttn = 1\<rparr>]\<rparr>,
      vts_ptt_srpt = \<lparr>ttu = []\<rparr>,
      vts_pgcit = \<lparr>pgci_srp = []\<rparr>\<rparr>"

definition long_disc :: dvd_reader_t where
  "long_disc n = (if n = 0 then Some long_vmg else if n = 1 then Some long_vts else None)"

text \<open>
  A disc with one title of three chapter markers whose first chapter is one cell of ten
  minutes at rate 25 and whose second chapter is one cell of one frame at rate 30.
\<close>

definition mixed_vts :: ifo_handle_t where
  "mixed_vts =
     \<lparr>tt_srpt = \<lparr>nr_of_srpts = 0, title = []\<rparr>,
      vts_ptt_srpt = \<lparr>ttu =
        [\<lparr>ptt = [\<lparr>pgcn = 1, pgn = 1\<rparr>, \<lparr>pgcn = 1, pgn = 2\<rparr>, \<lparr>pgcn = 1, pgn = 3\<rparr>]\<rparr>]\<rparr>,
      vts_pgcit = \<lparr>pgci_srp =
        [\<lparr>pgc = \<lparr>program_map = [1, 2, 3],
                  cell_playback =
                    [cell 0 0x10 0 0x40, cell 0 0 0 0xC1, cell 0 0x05 0 0xC0]\<rparr>\<rparr>]\<rparr>\<rparr>"

definition mixed_vmg :: ifo_handle_t where
  "mixed_vmg =
     \<lparr>tt_srpt = \<lparr>nr_of_srpts = 1,
        title = [\<lparr>nr_of_ptts = 3, title_set_nr = 1, vts_ttn = 1\<rparr>]\<rparr>,
      vts_ptt_srpt = \<lparr>ttu = []\<rparr>,
      vts_pgcit = \<lparr>pgci_srp = []\<rparr>\<rparr>"

definition mixed_disc :: dvd_reader_t where
  "mixed_disc n = (if n = 0 then Some mixed_vmg else if n = 1 then Some mixed_vts else None)"

section \<open>Unfolding the loops\<close>

text \<open>
  The equations of the loops are applied one iteration at a time, not by the
  simplifier on its own.
\<close>

declare cell_loop.simps [simp del]

declare chapter_loop.simps [simp del]

declare titles_loop.simps [simp del]

section \<open>Words as numbers\<close>

lemma unat_u8_lt: "unat (b :: u8) < 256"
  using unsigned_less [of b, where ?'a = nat] by simp

lemma unat_u8_mod: "unat (b :: u8) mod 4294967296 = unat b"
  using unat_u8_lt [of b] by simp

lemma unat_u32_lt: "unat (n :: u32) < 4294967296"
  using unsigned_less [of n, where ?'a = nat] by simp

lemma sint_small: "unat (w :: u32) < 2147483648 \<Longrightarrow> sint w = int (unat w)"
proof -
  assume a: "unat w < 2147483648"
  have u: "uint w = int (unat w)" by simp
  have "uint w < 2147483648" using a u by linarith
  then have lt: "uint w < 2 ^ 31" by simp
  have ge: "- (2 ^ 31) \<le> uint w" by (rule order_trans [of _ 0]) simp_all
  have "signed_take_bit 31 (uint w) = uint w"
    using ge lt by (rule signed_take_bit_int_eq_self)
  then show ?thesis by (simp add: sint_uint)
qed

lemma mask2_nat: "(3::nat) = mask 2"
  by (simp add: mask_eq_exp_minus_1)

lemma mask4_nat: "(15::nat) = mask 4"
  by (simp add: mask_eq_exp_minus_1)

lemma and3_nat: "(n AND (3::nat)) = n mod 4"
  by (simp add: mask2_nat take_bit_eq_mask [symmetric] take_bit_eq_mod)

lemma and15_nat: "(n AND (15::nat)) = n mod 16"
  by (simp add: mask4_nat take_bit_eq_mask [symmetric] take_bit_eq_mod)

lemma high_nibble_nat: "n < 256 \<Longrightarrow> drop_bit 4 n AND (15::nat) = n div 16"
  by (simp add: and15_nat drop_bit_eq_div)

lemma unat_high_nibble:
  "unat (drop_bit 4 ((ucast (b::u8) :: u32) AND 0xf0)) = unat b div 16"
  by (simp add: unat_drop_bit_eq unsigned_and_eq unsigned_ucast_eq high_nibble_nat
      unat_u8_lt take_bit_eq_mod unat_u8_mod)

lemma unat_low_nibble: "unat ((ucast (b::u8) :: u32) AND 0x0f) = unat b mod 16"
  by (simp add: unsigned_and_eq unsigned_ucast_eq and15_nat take_bit_eq_mod unat_u8_mod)

lemma unat_from_bcd: "unat (from_bcd b) = 10 * (unat b div 16) + unat b mod 16"
proof -
  have lt: "unat b div 16 * 10 + unat b mod 16 < 256"
    using unat_u8_lt [of b] by simp
  have "unat (from_bcd b) =
      (unat (drop_bit 4 ((ucast (b::u8) :: u32) AND 0xf0)) * 10 mod 4294967296
        + unat ((ucast (b::u8) :: u32) AND 0x0f)) mod 4294967296 mod 256"
    unfolding from_bcd_def Let_def
    by (simp only: unsigned_ucast_eq unat_word_ariths take_bit_eq_mod) simp
  also have "\<dots> = 10 * (unat b div 16) + unat b mod 16"
    unfolding unat_high_nibble unat_low_nibble using lt by simp
  finally show ?thesis .
qed

lemma unat_fps_field:
  "unat (drop_bit 6 ((ucast (b::u8) :: u32) AND 0xc0)) = unat b div 64"
proof -
  have lt: "unat b div 64 < 4" using unat_u8_lt [of b] by simp
  have "unat (drop_bit 6 ((ucast (b::u8) :: u32) AND 0xc0)) = drop_bit 6 (unat b AND 192)"
    by (simp only: unat_drop_bit_eq unsigned_and_eq unsigned_ucast_eq take_bit_eq_mod)
      (simp add: unat_u8_mod)
  also have "\<dots> = drop_bit 6 (unat b) AND drop_bit 6 (192::nat)"
    by (simp add: drop_bit_and)
  also have "\<dots> = (unat b div 64) AND 3"
    by (simp add: drop_bit_eq_div)
  also have "\<dots> = unat b div 64" using lt by (simp add: and3_nat)
  finally show ?thesis .
qed

lemma fps_field_is_1:
  "(drop_bit 6 ((ucast (b::u8) :: u32) AND 0xc0) = 1) = (unat b div 64 = 1)"
proof -
  have "(drop_bit 6 ((ucast (b::u8) :: u32) AND 0xc0) = 1)
      = (unat (drop_bit 6 ((ucast (b::u8) :: u32) AND 0xc0)) = unat (1::u32))"
    by (simp only: word_unat_eq_iff)
  also have "\<dots> = (unat b div 64 = 1)" by (simp only: unat_fps_field) simp
  finally show ?thesis .
qed

lemma odd_even_small: "q < 4 \<Longrightarrow> (odd q \<and> even (q div 2)) = (q = 1)" for q :: nat
proof -
  assume "q < 4"
  then consider "q = 0" | "q = 1" | "q = 2" | "q = 3" by linarith
  then show ?thesis by cases simp_all
qed

lemma bits_7_6_are_01: "(bit b 6 \<and> \<not> bit b 7) = (unat b div 64 = 1)" for b :: u8
proof -
  have "bit b 6 = bit (unat b) 6" by (simp add: bit_unsigned_iff)
  then have b6: "bit b 6 = odd (unat b div 64)" by (simp add: bit_iff_odd)
  have "bit b 7 = bit (unat b) 7" by (simp add: bit_unsigned_iff)
  then have "bit b 7 = odd (unat b div 128)" by (simp add: bit_iff_odd)
  moreover have "unat b div 128 = unat b div 64 div 2" by (simp add: div_mult2_eq)
  ultimately have b7: "bit b 7 = odd (unat b div 64 div 2)" by simp
  have "unat b div 64 < 4" using unat_u8_lt [of b] by simp
  then show ?thesis unfolding b6 b7 by (simp add: odd_even_small)
qed

lemma cell_fps_bits:
  "cell_fps dt = (if bit (frame_u dt) 6 \<and> \<not> bit (frame_u dt) 7 then 25 else 30)"
  unfolding cell_fps_def by (simp only: fps_field_is_1 bits_7_6_are_01)

lemma unat_frames_to_timestamp_ms:
  "unat (frames_to_timestamp_ms n r) =
     (unat (if r = 30 then 1001 else 1000 :: u32) * unat n mod 2 ^ 32)
       div (if r = 0 then 1 else unat r)"
  unfolding frames_to_timestamp_ms_def Let_def
  by (simp add: unat_div unat_word_ariths)

lemma sint_as_unat: "sint (w :: u32) = signed_take_bit 31 (int (unat w))"
proof -
  have "uint w = int (unat w)" by simp
  then show ?thesis by (simp only: sint_uint) simp
qed

lemma unat_timestamp_25: "unat (frames_to_timestamp_ms n 25) = (1000 * unat n mod 2 ^ 32) div 25"
  by (simp add: unat_frames_to_timestamp_ms)

lemma unat_timestamp_30: "unat (frames_to_timestamp_ms n 30) = (1001 * unat n mod 2 ^ 32) div 30"
  by (simp add: unat_frames_to_timestamp_ms)

lemma unat_timestamp_0: "unat (frames_to_timestamp_ms n 0) = 1000 * unat n mod 2 ^ 32"
  by (simp add: unat_frames_to_timestamp_ms)

lemma timestamp_30_bound: "unat (frames_to_timestamp_ms n 30) \<le> 143165576"
proof -
  have "(1001 * unat n mod 2 ^ 32) < (2 ^ 32 :: nat)" by simp
  then have "(1001 * unat n mod 2 ^ 32) div 30 \<le> 143165576" by simp
  then show ?thesis by (simp only: unat_timestamp_30)
qed

lemma timestamp_25_bound: "unat (frames_to_timestamp_ms n 25) \<le> 171798691"
proof -
  have "(1000 * unat n mod 2 ^ 32) < (2 ^ 32 :: nat)" by simp
  then have "(1000 * unat n mod 2 ^ 32) div 25 \<le> 171798691" by simp
  then show ?thesis by (simp only: unat_timestamp_25)
qed

lemma sint_timestamp_30: "sint (frames_to_timestamp_ms n 30) = int (unat (frames_to_timestamp_ms n 30))"
  using timestamp_30_bound [of n] by (intro sint_small) simp

lemma sint_timestamp_25: "sint (frames_to_timestamp_ms n 25) = int (unat (frames_to_timestamp_ms n 25))"
  using timestamp_25_bound [of n] by (intro sint_small) simp

section \<open>The loops, iteration by iteration\<close>

lemma cell_body_eq: "cell_body dt st = (cell_fps dt, snd st + cell_frames dt)"
  by (simp add: cell_body_def cell_frames_def Let_def add.assoc)

lemma cell_loop_done: "\<not> s \<le> e \<Longrightarrow> cell_loop p s e st = Inr st"
  by (subst cell_loop.simps) simp

lemma cell_loop_step:
  "s \<le> e \<Longrightarrow> cell_loop p s e st =
     (case array_at (cell_playback p) s of
        Inl err \<Rightarrow> Inl err
      | Inr c \<Rightarrow> cell_loop p (s + 1) e (cell_body (playback_time c) st))"
  by (subst cell_loop.simps) simp

lemma cell_loop_in_range:
  "cell_loop p s e st = Inr st' \<Longrightarrow> s \<le> e \<Longrightarrow>
     0 \<le> s \<and> e < int (length (cell_playback p))"
proof (induction p s e st rule: cell_loop.induct)
  case (1 p s e st)
  from "1.prems" obtain c where c: "array_at (cell_playback p) s = Inr c"
    and rest: "cell_loop p (s + 1) e (cell_body (playback_time c) st) = Inr st'"
    by (auto simp: cell_loop_step split: sum.splits)
  from c have s: "0 \<le> s" "s < int (length (cell_playback p))"
    by (auto simp: array_at_def split: if_splits)
  show ?case
  proof (cases "s + 1 \<le> e")
    case True
    with "1.IH" [OF "1.prems"(2) c rest] s show ?thesis by simp
  next
    case False
    with "1.prems"(2) have "e = s" by simp
    with s show ?thesis by simp
  qed
qed

lemma cell_loop_eq:
  "0 \<le> s \<Longrightarrow> e < int (length (cell_playback p)) \<Longrightarrow>
   cell_loop p s e st =
     Inr (if s \<le> e then cell_fps (playback_time (cell_playback p ! nat e)) else fst st,
          snd st + sum_list (map (\<lambda>c. cell_frames (playback_time c))
                              (cells_between (cell_playback p) s e)))"
proof (induction p s e st rule: cell_loop.induct)
  case (1 p s e st)
  show ?case
  proof (cases "s \<le> e")
    case False
    then show ?thesis by (simp add: cell_loop_done cells_between_def)
  next
    case True
    with "1.prems" have c: "array_at (cell_playback p) s = Inr (cell_playback p ! nat s)"
      by (simp add: array_at_def)
    have up: "[s..e] = s # [s + 1..e]" using True by (simp add: upto_rec1)
    have ih: "cell_loop p (s + 1) e (cell_body (playback_time (cell_playback p ! nat s)) st) =
      Inr (if s + 1 \<le> e then cell_fps (playback_time (cell_playback p ! nat e))
           else fst (cell_body (playback_time (cell_playback p ! nat s)) st),
          snd (cell_body (playback_time (cell_playback p ! nat s)) st)
            + sum_list (map (\<lambda>c. cell_frames (playback_time c))
                              (cells_between (cell_playback p) (s + 1) e)))"
      using "1.IH" [OF True c] "1.prems" by simp
    have step: "cell_loop p s e st
        = cell_loop p (s + 1) e (cell_body (playback_time (cell_playback p ! nat s)) st)"
      using True by (simp add: cell_loop_step c)
    have sum: "sum_list (map (\<lambda>c. cell_frames (playback_time c))
                 (cells_between (cell_playback p) s e))
        = cell_frames (playback_time (cell_playback p ! nat s))
          + sum_list (map (\<lambda>c. cell_frames (playback_time c))
                 (cells_between (cell_playback p) (s + 1) e))"
      by (simp add: cells_between_def up)
    have fps: "(if s + 1 \<le> e then cell_fps (playback_time (cell_playback p ! nat e))
           else fst (cell_body (playback_time (cell_playback p ! nat s)) st))
        = cell_fps (playback_time (cell_playback p ! nat e))"
    proof (cases "s + 1 \<le> e")
      case True
      then show ?thesis by simp
    next
      case False
      with \<open>s \<le> e\<close> have "e = s" by simp
      then show ?thesis by (simp add: cell_body_eq)
    qed
    show ?thesis
      unfolding step ih fps sum using True by (simp add: cell_body_eq add.assoc)
  qed
qed

section \<open>The frames of a cell\<close>

lemma unat_frame_tens:
  "unat (drop_bit 4 ((ucast (b::u8) :: u32) AND 0x30)) = unat b div 16 mod 4"
proof -
  have "unat (drop_bit 4 ((ucast (b::u8) :: u32) AND 0x30)) = drop_bit 4 (unat b AND 48)"
    by (simp only: unat_drop_bit_eq unsigned_and_eq unsigned_ucast_eq take_bit_eq_mod)
      (simp add: unat_u8_mod)
  also have "\<dots> = drop_bit 4 (unat b) AND drop_bit 4 (48::nat)"
    by (simp add: drop_bit_and)
  also have "\<dots> = (unat b div 16) AND 3"
    by (simp add: drop_bit_eq_div)
  also have "\<dots> = unat b div 16 mod 4" by (simp add: and3_nat)
  finally show ?thesis .
qed

lemma of_nat_unat_u32: "(of_nat (unat w) :: u32) = w" for w :: u32
  by simp

lemma ucast_u8_of_nat: "(ucast (b :: u8) :: u32) = of_nat (unat b)"
proof -
  have "(of_nat (unat b) :: u32) = unsigned b" by (rule of_nat_unat)
  then show ?thesis by simp
qed

lemma cell_fps_cases: "cell_fps dt = 25 \<or> cell_fps dt = 30"
  by (simp add: cell_fps_def)

lemma unat_cell_fps_le: "unat (cell_fps dt) \<le> 30"
  using cell_fps_cases [of dt] by auto

lemma unat_from_bcd_le: "unat (from_bcd b) \<le> 165"
proof -
  have "unat b div 16 \<le> 15" using unat_u8_lt [of b] by simp
  moreover have "unat b mod 16 \<le> 15" by simp
  ultimately show ?thesis unfolding unat_from_bcd by linarith
qed

lemma cell_frames_nat_le: "cell_frames_nat dt \<le> 18121995"
proof -
  have h: "unat (from_bcd (hour dt)) * 3600 \<le> 165 * 3600"
    using unat_from_bcd_le [of "hour dt"] by simp
  have m: "unat (from_bcd (minute dt)) * 60 \<le> 165 * 60"
    using unat_from_bcd_le [of "minute dt"] by simp
  have s: "unat (from_bcd (second dt)) \<le> 165" by (rule unat_from_bcd_le)
  have "(unat (from_bcd (hour dt)) * 3600 + unat (from_bcd (minute dt)) * 60
        + unat (from_bcd (second dt))) * unat (cell_fps dt) \<le> 604065 * 30"
    using h m s unat_cell_fps_le [of dt] by (intro mult_le_mono) simp_all
  moreover have "frame_field (frame_u dt) \<le> 45"
  proof -
    have "unat (frame_u dt) div 16 mod 4 \<le> 3" by simp
    moreover have "unat (frame_u dt) mod 16 \<le> 15" by simp
    ultimately show ?thesis unfolding frame_field_def by linarith
  qed
  ultimately show ?thesis unfolding cell_frames_nat_def by linarith
qed

lemma cell_frames_of_nat: "cell_frames dt = of_nat (cell_frames_nat dt)"
proof -
  have t: "drop_bit 4 ((ucast (frame_u dt) :: u32) AND 0x30)
      = of_nat (unat (frame_u dt) div 16 mod 4)"
    using unat_frame_tens [of "frame_u dt"] of_nat_unat_u32 by metis
  have l: "((ucast (frame_u dt) :: u32) AND 0x0f) = of_nat (unat (frame_u dt) mod 16)"
    using unat_low_nibble [of "frame_u dt"] of_nat_unat_u32 by metis
  have f: "cell_fps dt = of_nat (unat (cell_fps dt))" by simp
  show ?thesis
    unfolding cell_frames_def cell_frames_nat_def frame_field_def
    unfolding t l
    unfolding ucast_u8_of_nat
    by (subst f) (simp only: of_nat_add of_nat_mult of_nat_numeral mult.assoc, simp)
qed

lemma unat_cell_frames: "unat (cell_frames dt) = cell_frames_nat dt"
proof -
  have "cell_frames_nat dt < 2 ^ 32" using cell_frames_nat_le [of dt] by simp
  then show ?thesis by (simp add: cell_frames_of_nat unat_of_nat take_bit_eq_mod)
qed

section \<open>The frames of a chapter\<close>

lemma cells_between_empty: "\<not> s \<le> e \<Longrightarrow> cells_between cells s e = []"
  by (simp add: cells_between_def)

lemma cells_between_nonempty: "s \<le> e \<Longrightarrow> cells_between cells s e \<noteq> []"
  by (simp add: cells_between_def)

lemma last_cells_between: "s \<le> e \<Longrightarrow> last (cells_between cells s e) = cells ! nat e"
  by (simp add: cells_between_def upto_rec2)

lemma chapter_body_Inr:
  assumes "chapter_body vts ttn chapter st = Inr st'"
  shows "fst st' = fst st
            + sum_list (map (\<lambda>c. cell_frames (playback_time c)) (chapter_cells vts ttn chapter))
         \<and> snd st' = (if chapter_cells vts ttn chapter = [] then snd st
                      else cell_fps (playback_time (last (chapter_cells vts ttn chapter))))"
proof -
  from assms obtain m m' c where m: "marker_entry vts ttn chapter = Inr m"
    and m': "marker_entry vts ttn (chapter + 1) = Inr m'"
    and loop: "cell_loop (fst m') (uint (snd m) - 1) (uint (snd m') - 2) (snd st, 0) = Inr c"
    and st': "st' = (fst st + snd c, fst c)"
    by (auto simp: chapter_body_def and_then_def Let_def split: sum.splits)
  have cells: "chapter_cells vts ttn chapter
      = cells_between (cell_playback (fst m')) (uint (snd m) - 1) (uint (snd m') - 2)"
    by (simp add: chapter_cells_def m m')
  show ?thesis
  proof (cases "uint (snd m) - 1 \<le> uint (snd m') - 2")
    case False
    with loop have "c = (snd st, 0)" by (simp add: cell_loop_done)
    with False show ?thesis by (simp add: st' cells cells_between_empty)
  next
    case True
    from cell_loop_in_range [OF loop True]
    have "0 \<le> uint (snd m) - 1" "uint (snd m') - 2 < int (length (cell_playback (fst m')))"
      by simp_all
    from cell_loop_eq [OF this, of "(snd st, 0)"] loop True
    have "c = (cell_fps (playback_time (cell_playback (fst m') ! nat (uint (snd m') - 2))),
          sum_list (map (\<lambda>c. cell_frames (playback_time c))
            (cells_between (cell_playback (fst m')) (uint (snd m) - 1) (uint (snd m') - 2))))"
      by simp
    with True show ?thesis
      by (simp add: st' cells cells_between_nonempty last_cells_between)
  qed
qed

lemma sum_list_of_nat_u32:
  "sum_list (map (\<lambda>c. (of_nat (g c) :: u32)) xs) = of_nat (sum_list (map g xs))"
  by (induction xs) simp_all

lemma sum_cell_frames:
  "sum_list (map (\<lambda>c. cell_frames (playback_time c)) cs)
     = of_nat (sum_list (map (\<lambda>c. cell_frames_nat (playback_time c)) cs))"
  by (simp only: cell_frames_of_nat sum_list_of_nat_u32)

lemma unat_add_of_nat: "unat a + n < 2 ^ 32 \<Longrightarrow> unat (a + of_nat n) = unat a + n" for a :: u32
proof -
  assume lt: "unat a + n < 2 ^ 32"
  have "a + of_nat n = of_nat (unat a + n)" by simp
  then have "unat (a + of_nat n) = (unat a + n) mod 2 ^ 32"
    by (simp only: unat_of_nat) simp
  with lt show ?thesis by simp
qed

lemma sint_timestamp_exact:
  assumes "r = 25 \<or> r = 30" and "(if r = 30 then 1001 else 1000) * unat n < 2 ^ 32"
  shows "sint (frames_to_timestamp_ms n r)
           = int ((if r = 30 then 1001 else 1000) * unat n div unat r)"
  using assms
  by (auto simp: sint_timestamp_25 unat_timestamp_25 sint_timestamp_30 unat_timestamp_30)

lemma sint_timestamp_nonneg: "r = 25 \<or> r = 30 \<Longrightarrow> 0 \<le> sint (frames_to_timestamp_ms n r)"
  by (auto simp: sint_timestamp_25 sint_timestamp_30)

lemma timestamp_0_0: "frames_to_timestamp_ms 0 fps = 0"
  by (simp add: frames_to_timestamp_ms_def)

lemma chapter_step_mono:
  assumes body: "chapter_body vts ttn (int k) st = Inr st'"
    and r: "r = 25 \<or> r = 30"
    and rate: "chapter_rate_is vts ttn r k"
    and inv: "(snd st = 0 \<and> fst st = 0) \<or> snd st = r"
    and nowrap: "(if r = 30 then 1001 else 1000) * (unat (fst st) + chapter_frames vts ttn k) < 2 ^ 32"
  shows "sint (frames_to_timestamp_ms (fst st) (snd st))
           \<le> sint (frames_to_timestamp_ms (fst st') (snd st'))
         \<and> ((snd st' = 0 \<and> fst st' = 0) \<or> snd st' = r)
         \<and> unat (fst st') = unat (fst st) + chapter_frames vts ttn k"
proof -
  let ?cs = "chapter_cells vts ttn (int k)"
  let ?f = "(if r = 30 then 1001 else 1000) :: nat"
  from chapter_body_Inr [OF body]
  have o: "fst st' = fst st + of_nat (chapter_frames vts ttn k)"
    and f: "snd st' = (if ?cs = [] then snd st else cell_fps (playback_time (last ?cs)))"
    by (simp_all add: sum_cell_frames chapter_frames_def)
  have fpos: "1 \<le> ?f" by simp
  have "unat (fst st) + chapter_frames vts ttn k
      \<le> ?f * (unat (fst st) + chapter_frames vts ttn k)"
    using fpos by (metis mult_le_mono1 nat_mult_1)
  with nowrap have small: "unat (fst st) + chapter_frames vts ttn k < 2 ^ 32" by linarith
  have u: "unat (fst st') = unat (fst st) + chapter_frames vts ttn k"
    unfolding o using small by (rule unat_add_of_nat)
  have f': "snd st' = (if ?cs = [] then snd st else r)"
  proof (cases "?cs = []")
    case True
    then show ?thesis by (simp add: f)
  next
    case False
    then have "last ?cs \<in> set ?cs" by simp
    with rate have "cell_fps (playback_time (last ?cs)) = r"
      by (simp add: chapter_rate_is_def list_all_iff)
    with False show ?thesis by (simp add: f)
  qed
  have empty: "?cs = [] \<Longrightarrow> fst st' = fst st"
    by (simp add: o chapter_frames_def)
  have nowrap': "?f * unat (fst st') < 2 ^ 32" using nowrap by (simp only: u)
  have le: "?f * unat (fst st) \<le> ?f * unat (fst st')"
    unfolding u by simp
  then have nowrap0: "?f * unat (fst st) < 2 ^ 32" using nowrap' by linarith
  show ?thesis
  proof (cases "snd st = r")
    case True
    then have s': "snd st' = r" by (simp add: f')
    have "sint (frames_to_timestamp_ms (fst st) r) = int (?f * unat (fst st) div unat r)"
      using r nowrap0 by (rule sint_timestamp_exact)
    moreover have "sint (frames_to_timestamp_ms (fst st') r) = int (?f * unat (fst st') div unat r)"
      using r nowrap' by (rule sint_timestamp_exact)
    moreover have "?f * unat (fst st) div unat r \<le> ?f * unat (fst st') div unat r"
      using le by (rule div_le_mono)
    ultimately show ?thesis using True s' u by simp
  next
    case False
    with inv have z: "snd st = 0" "fst st = 0" by simp_all
    show ?thesis
    proof (cases "?cs = []")
      case True
      with z show ?thesis using u by (simp add: f' empty)
    next
      case False
      then have "snd st' = r" by (simp add: f')
      with z r u show ?thesis by (simp add: timestamp_0_0 sint_timestamp_nonneg)
    qed
  qed
qed

lemma chapter_starts_append: "chapter_starts (xs @ ys) = chapter_starts xs @ chapter_starts ys"
  by (induction xs rule: chapter_starts.induct) simp_all

lemma chapter_loop_done: "\<not> chapter < uint nr - 1 \<Longrightarrow> chapter_loop vts nr ttn chapter st w = Inr w"
  by (subst chapter_loop.simps) simp

lemma chapter_loop_step:
  "chapter < uint nr - 1 \<Longrightarrow> chapter_loop vts nr ttn chapter st w =
     (case chapter_body vts ttn chapter st of
        Inl e \<Rightarrow> Inl e
      | Inr st' \<Rightarrow>
          chapter_loop vts nr ttn (chapter + 1) st'
            (on_chapter_start (frames_to_timestamp_ms (fst st') (snd st')) w))"
  by (subst chapter_loop.simps) simp

lemma chapter_loop_sorted:
  assumes "chapter_loop vts nr ttn (int k) st w = Inr w'"
    and "r = 25 \<or> r = 30"
    and "list_all (chapter_rate_is vts ttn r) [k..<nat (uint nr - 1)]"
    and "(snd st = 0 \<and> fst st = 0) \<or> snd st = r"
    and "(if r = 30 then 1001 else 1000)
           * (unat (fst st) + sum_list (map (chapter_frames vts ttn) [k..<nat (uint nr - 1)]))
         < 2 ^ 32"
  shows "\<exists>L. stream w' = stream w @ L \<and> sorted (chapter_starts L)
           \<and> (\<forall>x\<in>set (chapter_starts L). sint (frames_to_timestamp_ms (fst st) (snd st)) \<le> x)"
  using assms
proof (induction "nat (uint nr - 1) - k" arbitrary: k st w)
  case 0
  then have "\<not> int k < uint nr - 1" by linarith
  with "0.prems"(1) have "w' = w" by (simp add: chapter_loop_done)
  then show ?case by simp
next
  case (Suc d)
  let ?n = "nat (uint nr - 1)"
  let ?f = "(if r = 30 then 1001 else 1000) :: nat"
  from Suc.hyps(2) have lt: "int k < uint nr - 1" and kn: "k < ?n" by linarith+
  have up: "[k..<?n] = k # [Suc k..<?n]" using kn by (rule upt_conv_Cons)
  from Suc.prems(1) lt obtain st' where body: "chapter_body vts ttn (int k) st = Inr st'"
    and rest: "chapter_loop vts nr ttn (int (Suc k)) st'
        (on_chapter_start (frames_to_timestamp_ms (fst st') (snd st')) w) = Inr w'"
    by (auto simp: chapter_loop_step add.commute split: sum.splits)
  from Suc.prems(3) have rate: "chapter_rate_is vts ttn r k"
    and rates: "list_all (chapter_rate_is vts ttn r) [Suc k..<?n]"
    by (simp_all add: up)
  have total: "?f * (unat (fst st) + (chapter_frames vts ttn k
        + sum_list (map (chapter_frames vts ttn) [Suc k..<?n]))) < 2 ^ 32"
    using Suc.prems(5) by (simp add: up)
  have "?f * (unat (fst st) + chapter_frames vts ttn k)
      \<le> ?f * (unat (fst st) + (chapter_frames vts ttn k
        + sum_list (map (chapter_frames vts ttn) [Suc k..<?n])))"
    by (intro mult_le_mono2) simp
  with total have nowrap: "?f * (unat (fst st) + chapter_frames vts ttn k) < 2 ^ 32"
    by linarith
  from chapter_step_mono [OF body Suc.prems(2) rate Suc.prems(4) nowrap]
  have mono: "sint (frames_to_timestamp_ms (fst st) (snd st))
           \<le> sint (frames_to_timestamp_ms (fst st') (snd st'))"
    and inv': "(snd st' = 0 \<and> fst st' = 0) \<or> snd st' = r"
    and u: "unat (fst st') = unat (fst st) + chapter_frames vts ttn k"
    by simp_all
  have total': "?f * (unat (fst st') + sum_list (map (chapter_frames vts ttn) [Suc k..<?n]))
      < 2 ^ 32"
    using total by (simp only: u add.assoc)
  have d: "d = ?n - Suc k" using Suc.hyps(2) by linarith
  from Suc.hyps(1) [OF d rest Suc.prems(2) rates inv' total']
  obtain L where L: "stream w' = stream (on_chapter_start
          (frames_to_timestamp_ms (fst st') (snd st')) w) @ L"
    and sorted: "sorted (chapter_starts L)"
    and above: "\<forall>x\<in>set (chapter_starts L).
          sint (frames_to_timestamp_ms (fst st') (snd st')) \<le> x"
    by blast
  let ?L = "ChapterAtom (frames_to_timestamp_ms (fst st') (snd st')) (chapter_num w) # L"
  have "stream w' = stream w @ ?L" using L by (simp add: on_chapter_start_def)
  moreover have "sorted (chapter_starts ?L)" using sorted above by simp
  moreover have "\<forall>x\<in>set (chapter_starts ?L).
      sint (frames_to_timestamp_ms (fst st) (snd st)) \<le> x"
    using mono above by auto
  ultimately show ?case by blast
qed

section \<open>The output of a title\<close>

lemma chapter_loop_walk:
  assumes "chapter_loop vts nr ttn (int k) st w = Inr w'"
  shows "\<exists>L. stream w' = stream w @ L
           \<and> chapter_starts L = map sint (cumulative_walk vts ttn [k..<nat (uint nr - 1)] st)"
  using assms
proof (induction "nat (uint nr - 1) - k" arbitrary: k st w)
  case 0
  then have "\<not> int k < uint nr - 1" and "nat (uint nr - 1) \<le> k" by linarith+
  with "0.prems" show ?case by (simp add: chapter_loop_done)
next
  case (Suc d)
  let ?n = "nat (uint nr - 1)"
  from Suc.hyps(2) have lt: "int k < uint nr - 1" and kn: "k < ?n" by linarith+
  have up: "[k..<?n] = k # [Suc k..<?n]" using kn by (rule upt_conv_Cons)
  from Suc.prems lt obtain st' where body: "chapter_body vts ttn (int k) st = Inr st'"
    and rest: "chapter_loop vts nr ttn (int (Suc k)) st'
        (on_chapter_start (frames_to_timestamp_ms (fst st') (snd st')) w) = Inr w'"
    by (auto simp: chapter_loop_step add.commute split: sum.splits)
  from chapter_body_Inr [OF body]
  have f: "fst st' = fst st + sum_list (map (\<lambda>c. cell_frames (playback_time c))
                      (chapter_cells vts ttn (int k)))"
    and s: "snd st' = (if chapter_cells vts ttn (int k) = [] then snd st
                    else cell_fps (playback_time (last (chapter_cells vts ttn (int k)))))"
    by simp_all
  have cw: "cumulative_walk vts ttn (k # [Suc k..<?n]) st
      = frames_to_timestamp_ms (fst st') (snd st') # cumulative_walk vts ttn [Suc k..<?n] st'"
    unfolding cumulative_walk.simps Let_def f [symmetric] s [symmetric] by simp
  have d: "d = ?n - Suc k" using Suc.hyps(2) by linarith
  from Suc.hyps(1) [OF d rest] obtain L
    where L: "stream w' = stream (on_chapter_start
          (frames_to_timestamp_ms (fst st') (snd st')) w) @ L"
      and cs: "chapter_starts L = map sint (cumulative_walk vts ttn [Suc k..<?n] st')"
    by blast
  let ?L = "ChapterAtom (frames_to_timestamp_ms (fst st') (snd st')) (chapter_num w) # L"
  have "stream w' = stream w @ ?L" using L by (simp add: on_chapter_start_def)
  moreover have "chapter_starts ?L = map sint (cumulative_walk vts ttn [k..<?n] st)"
    unfolding up cw using cs by simp
  ultimately show ?case by blast
qed

lemma get_chapters_walk:
  assumes run: "get_chapters_for_title reader vmg title_no w = Inr w'"
    and ti: "array_at (title (tt_srpt vmg)) title_no = Inr ti"
    and vts: "reader (uint (title_set_nr ti)) = Some vts"
  shows "chapter_starts (drop (length (stream w)) (stream w'))
           = 0 # map sint (cumulative_walk vts (vts_ttn ti)
                   [0..<nat (uint (nr_of_ptts ti) - 1)] (0, 0))"
proof -
  let ?w0 = "on_chapter_start 0 (on_title_start w)"
  from run obtain w1
    where loop: "chapter_loop vts (nr_of_ptts ti) (vts_ttn ti) 0 (0, 0) ?w0 = Inr w1"
      and w': "w' = on_title_end w1"
    by (auto simp: get_chapters_for_title_def and_then_def ti ifo_open_def vts Let_def
        split: sum.splits)
  have "chapter_loop vts (nr_of_ptts ti) (vts_ttn ti) (int 0) (0, 0) ?w0 = Inr w1"
    using loop by simp
  from chapter_loop_walk [OF this] obtain L where L: "stream w1 = stream ?w0 @ L"
    and cs: "chapter_starts L = map sint (cumulative_walk vts (vts_ttn ti)
                   [0..<nat (uint (nr_of_ptts ti) - 1)] (0, 0))"
    by blast
  have "stream w' = stream w @ ([EditionEntry_open, ChapterAtom 0 1] @ L @ [EditionEntry_close])"
    by (simp add: w' on_title_end_def L on_chapter_start_def on_title_start_def)
  then have "drop (length (stream w)) (stream w')
      = [EditionEntry_open, ChapterAtom 0 1] @ L @ [EditionEntry_close]"
    by simp
  then show ?thesis by (simp add: chapter_starts_append cs)
qed

lemma get_chapters_first_timestamp:
  assumes run: "get_chapters_for_title reader vmg title_no w = Inr w'"
  shows "chapter_starts (drop (length (stream w)) (stream w')) \<noteq> []
         \<and> hd (chapter_starts (drop (length (stream w)) (stream w'))) = 0"
proof -
  from run obtain ti :: title_info_t and vts
    where "array_at (title (tt_srpt vmg)) title_no = Inr ti"
      and "reader (uint (title_set_nr ti)) = Some vts"
    by (auto simp: get_chapters_for_title_def and_then_def ifo_open_def
        split: sum.splits option.splits)
  from get_chapters_walk [OF run this] show ?thesis by simp
qed

lemma sorted_without_wrap:
  assumes run: "get_chapters_for_title reader vmg title_no w = Inr w'"
    and ti: "array_at (title (tt_srpt vmg)) title_no = Inr ti"
    and vts: "reader (uint (title_set_nr ti)) = Some vts"
    and r: "r = 25 \<or> r = 30"
    and rate: "walk_single_rate vts (vts_ttn ti) (nr_of_ptts ti) r"
    and nowrap: "(if r = 30 then 1001 else 1000)
                   * title_frames vts (vts_ttn ti) (nr_of_ptts ti) < 2 ^ 32"
  shows "chapter_starts (drop (length (stream w)) (stream w')) \<noteq> []
         \<and> hd (chapter_starts (drop (length (stream w)) (stream w'))) = 0
         \<and> sorted (chapter_starts (drop (length (stream w)) (stream w')))"
proof -
  let ?w0 = "on_chapter_start 0 (on_title_start w)"
  from run obtain w1 where loop: "chapter_loop vts (nr_of_ptts ti) (vts_ttn ti) 0 (0, 0) ?w0 = Inr w1"
    and w': "w' = on_title_end w1"
    by (auto simp: get_chapters_for_title_def and_then_def ti ifo_open_def vts Let_def
        split: sum.splits)
  have loop': "chapter_loop vts (nr_of_ptts ti) (vts_ttn ti) (int 0) (0, 0) ?w0 = Inr w1"
    using loop by simp
  have rate': "list_all (chapter_rate_is vts (vts_ttn ti) r) [0..<nat (uint (nr_of_ptts ti) - 1)]"
    using rate by (simp add: walk_single_rate_def)
  have inv: "(snd (0 :: u32, 0 :: u32) = 0 \<and> fst (0 :: u32, 0 :: u32) = 0)
      \<or> snd (0 :: u32, 0 :: u32) = r"
    by simp
  have nowrap': "(if r = 30 then 1001 else 1000)
      * (unat (fst (0 :: u32, 0 :: u32))
         + sum_list (map (chapter_frames vts (vts_ttn ti)) [0..<nat (uint (nr_of_ptts ti) - 1)]))
      < 2 ^ 32"
    using nowrap by (simp add: title_frames_def)
  from chapter_loop_sorted [OF loop' r rate' inv nowrap']
  obtain L where L: "stream w1 = stream ?w0 @ L" and sorted: "sorted (chapter_starts L)"
    and above: "\<forall>x\<in>set (chapter_starts L). 0 \<le> x"
    by (auto simp: timestamp_0_0)
  have "stream w' = stream w @ ([EditionEntry_open, ChapterAtom 0 1] @ L @ [EditionEntry_close])"
    by (simp add: w' on_title_end_def L on_chapter_start_def on_title_start_def)
  then have "drop (length (stream w)) (stream w')
      = [EditionEntry_open, ChapterAtom 0 1] @ L @ [EditionEntry_close]"
    by simp
  then have "chapter_starts (drop (length (stream w)) (stream w')) = 0 # chapter_starts L"
    by (simp add: chapter_starts_append)
  with sorted above show ?thesis by simp
qed

section \<open>The BCD decoder\<close>

text \<open>
  Claim C9, as amended. For every byte the decoder returns ten times the high nibble
  plus the low nibble, without any check of the nibbles; \<open>0x23\<close>, \<open>0x00\<close> and \<open>0x99\<close>
  decode to 23, 0 and 99. The value lies outside 0 to 99 exactly when the high nibble
  is above 9, or the high nibble is 9 and the low nibble is above 9; a byte whose high
  nibble is at most 8 and whose low nibble is above 9 decodes to a value between 10 and
  95.
\<close>

theorem from_bcd_formula:
  "unat (from_bcd b) = 10 * (unat b div 16) + unat b mod 16
   \<and> from_bcd 0x23 = 23 \<and> from_bcd 0x00 = 0 \<and> from_bcd 0x99 = 99
   \<and> (99 < unat (from_bcd b))
       = (9 < unat b div 16 \<or> (unat b div 16 = 9 \<and> 9 < unat b mod 16))"
proof -
  have ex: "from_bcd 0x23 = 23 \<and> from_bcd 0x00 = 0 \<and> from_bcd 0x99 = 99"
    by (simp add: from_bcd_def)
  have "unat b mod 16 < 16" by simp
  then have "(99 < 10 * (unat b div 16) + unat b mod 16)
      = (9 < unat b div 16 \<or> (unat b div 16 = 9 \<and> 9 < unat b mod 16))"
    by linarith
  with ex show ?thesis by (simp only: unat_from_bcd)
qed

text \<open>
  The byte \<open>0x0A\<close> has the low nibble 10 and decodes to 10, a value within 0 to 99.
\<close>

theorem from_bcd_0x0A_within_range:
  "9 < unat (0x0A :: u8) mod 16 \<and> unat (from_bcd 0x0A) = 10 \<and> \<not> 99 < unat (from_bcd 0x0A)"
  by (simp add: from_bcd_def)

section \<open>The timestamp converter\<close>

text \<open>
  Claim C3, as amended. 25 frames at rate 25 are 1000 ms, 30 frames at rate 30 are
  1001 ms, and 2997 frames at rate 30 are 99999 ms (2997 * 1001 = 2999997, divided by
  30 and truncated).
\<close>

theorem convert_test_values:
  "sint (frames_to_timestamp_ms 25 25) = 1000
   \<and> sint (frames_to_timestamp_ms 30 30) = 1001
   \<and> sint (frames_to_timestamp_ms 2997 30) = 99999"
  by (simp add: frames_to_timestamp_ms_def)

text \<open>The value 99900 of the claim is not what the conversion returns for 2997 frames.\<close>

theorem convert_2997_is_not_99900:
  "sint (frames_to_timestamp_ms 2997 30) \<noteq> 99900"
  by (simp add: frames_to_timestamp_ms_def)

text \<open>
  Claim C5, as amended. For a rate of 25 or 30 and a frame count whose product with
  the numerator (1000 at rate 25, 1001 at rate 30) is below \<open>2^32\<close>, the result is the
  truncated quotient of that product by the rate, which at rate 25 is 40 ms per frame.
  At rate 0 the divisor is 1: the result is the product itself, modulo \<open>2^32\<close>.
\<close>

theorem timestamp_exact_without_wrap:
  "((r = 25 \<or> r = 30) \<and> (if r = 30 then 1001 else 1000) * unat n < 2 ^ 32 \<longrightarrow>
      sint (frames_to_timestamp_ms n r)
        = int ((if r = 30 then 1001 else 1000) * unat n div unat r)
      \<and> (r = 25 \<longrightarrow> sint (frames_to_timestamp_ms n r) = 40 * int (unat n)))
   \<and> unat (frames_to_timestamp_ms n 0) = 1000 * unat n mod 2 ^ 32"
proof -
  have p25: "sint (frames_to_timestamp_ms n 25) = int (1000 * unat n div 25)"
    if "1000 * unat n < 2 ^ 32"
    using that by (simp add: sint_timestamp_25 unat_timestamp_25)
  have p30: "sint (frames_to_timestamp_ms n 30) = int (1001 * unat n div 30)"
    if "1001 * unat n < 2 ^ 32"
    using that by (simp add: sint_timestamp_30 unat_timestamp_30)
  have q: "int (1000 * unat n div 25) = 40 * int (unat n)" by simp
  have u25: "unat (25 :: u32) = 25" and u30: "unat (30 :: u32) = 30" by simp_all
  show ?thesis using p25 p30 q u25 u30 unat_timestamp_0 [of n]
    by auto
qed

theorem timestamp_exact_without_wrap_witness:
  "((25 :: u32) = 25 \<or> (25 :: u32) = 30)
   \<and> (if (25 :: u32) = 30 then 1001 else 1000) * unat (4294967 :: u32) < 2 ^ 32
   \<and> sint (frames_to_timestamp_ms 4294967 25) = 171798680
   \<and> sint (frames_to_timestamp_ms 4294967 25) = 40 * int (unat (4294967 :: u32))"
  using timestamp_exact_without_wrap [of 25 4294967]
  by simp

text \<open>
  At rate 25 the product wraps from 4294968 frames on: the result is 28 ms, not
  171798720 ms.
\<close>

theorem timestamp_25_wraps_at_4294968:
  "sint (frames_to_timestamp_ms 4294968 25) = 28
   \<and> sint (frames_to_timestamp_ms 4294968 25) \<noteq> (1000 * 4294968) div 25"
  by (simp add: frames_to_timestamp_ms_def)

text \<open>
  Claim C10, as amended. The product is an unsigned 32-bit product: the result is the
  quotient of the product modulo \<open>2^32\<close> by the rate (by 1 at rate 0), read as a signed
  32-bit integer. At rate 30 every frame count above 4290676 gives a timestamp below the
  exact quotient. At the rates 25 and 30 the result is never negative, since the
  quotient stays below \<open>2^31\<close>; a negative result needs the divisor 1, as for 2147484
  frames at rate 0.
\<close>

theorem timestamp_wraps_32_bit:
  "sint (frames_to_timestamp_ms n r)
     = signed_take_bit 31
         (int (((if r = 30 then 1001 else 1000) * unat n mod 2 ^ 32)
               div (if r = 0 then 1 else unat r)))
   \<and> (4290676 < unat n \<longrightarrow>
         sint (frames_to_timestamp_ms n 30) < int (1001 * unat n div 30)
         \<and> 0 \<le> sint (frames_to_timestamp_ms n 30))
   \<and> 0 \<le> sint (frames_to_timestamp_ms n 25)
   \<and> sint (frames_to_timestamp_ms 2147484 0) = - 2147483296"
proof -
  have "unat (frames_to_timestamp_ms n r)
      = ((if r = 30 then 1001 else 1000) * unat n mod 2 ^ 32)
          div (if r = 0 then 1 else unat r)"
    by (simp add: unat_frames_to_timestamp_ms)
  then have a: "sint (frames_to_timestamp_ms n r)
     = signed_take_bit 31
         (int (((if r = 30 then 1001 else 1000) * unat n mod 2 ^ 32)
               div (if r = 0 then 1 else unat r)))"
    by (simp only: sint_as_unat)
  have b: "sint (frames_to_timestamp_ms n 30) < int (1001 * unat n div 30)"
    if big: "4290676 < unat n"
  proof -
    have "143165576 < 1001 * unat n div 30" using big by simp
    with timestamp_30_bound [of n]
    have "unat (frames_to_timestamp_ms n 30) < 1001 * unat n div 30" by linarith
    then show ?thesis by (simp only: sint_timestamp_30 of_nat_less_iff)
  qed
  have c: "0 \<le> sint (frames_to_timestamp_ms n 30)"
    by (simp add: sint_timestamp_30)
  have d: "0 \<le> sint (frames_to_timestamp_ms n 25)"
    by (simp add: sint_timestamp_25)
  have e: "sint (frames_to_timestamp_ms 2147484 0) = - 2147483296"
    by (simp add: frames_to_timestamp_ms_def)
  from a b c d e show ?thesis by blast
qed

theorem timestamp_wraps_32_bit_witness:
  "4290676 < unat (4290677 :: u32)
   \<and> sint (frames_to_timestamp_ms 4290677 30) = 12
   \<and> sint (frames_to_timestamp_ms 4290677 30) < int (1001 * unat (4290677 :: u32) div 30)
   \<and> 0 \<le> sint (frames_to_timestamp_ms 4290677 30)"
  using timestamp_wraps_32_bit [of 4290677 30]
  by (simp add: frames_to_timestamp_ms_def)

text \<open>No frame count above 4290676 has a negative timestamp at rate 30.\<close>

theorem timestamp_never_negative_at_30:
  "\<not> (\<exists>n. 4290676 < unat n \<and> sint (frames_to_timestamp_ms n 30) < 0)"
proof
  assume "\<exists>n. 4290676 < unat n \<and> sint (frames_to_timestamp_ms n 30) < 0"
  then obtain n where "sint (frames_to_timestamp_ms n 30) < 0" by blast
  then show False by (simp add: sint_timestamp_30)
qed

section \<open>The walker\<close>

text \<open>
  Claim C2, as amended. Every cell that the walker processes overwrites the captured
  frame rate with the rate of that cell, which is decided by the two bits 7 and 6 of
  the combined frame and rate byte: 25 when bit 6 is set and bit 7 is clear, 30 for
  every other byte. After a non-empty range of cells the captured rate is that of the
  last cell of the range.
\<close>

theorem frame_rate_capture:
  "fst (cell_body dt st) = cell_fps dt
   \<and> cell_fps dt = (if bit (frame_u dt) 6 \<and> \<not> bit (frame_u dt) 7 then 25 else 30)
   \<and> (cell_loop cur_pgc start_cell end_cell st = Inr st' \<and> start_cell \<le> end_cell \<longrightarrow>
         fst st' = cell_fps (playback_time (cell_playback cur_pgc ! nat end_cell)))"
proof -
  have "fst st' = cell_fps (playback_time (cell_playback cur_pgc ! nat end_cell))"
    if loop: "cell_loop cur_pgc start_cell end_cell st = Inr st'" and le: "start_cell \<le> end_cell"
  proof -
    from cell_loop_in_range [OF loop le]
    have "0 \<le> start_cell" "end_cell < int (length (cell_playback cur_pgc))" by simp_all
    from cell_loop_eq [OF this, of st] loop le show ?thesis by auto
  qed
  then show ?thesis by (simp add: cell_body_eq cell_fps_bits)
qed

text \<open>
  Of a cell at rate 25 followed by a cell at rate 30, the second decides the rate; the
  byte \<open>0x40\<close> has bit 6 set and bit 7 clear.
\<close>

theorem frame_rate_capture_witness:
  "cell_loop \<lparr>program_map = [], cell_playback = [cell 0 0 0x01 0x40, cell 0 0 0x01 0xC0]\<rparr>
      0 1 (0, 0) = Inr (30, 55)
   \<and> (0 :: int) \<le> 1
   \<and> cell_fps (playback_time (cell 0 0 0x01 0xC0)) = 30
   \<and> cell_fps (playback_time (cell 0 0 0x01 0x40)) = 25
   \<and> bit (0x40 :: u8) 6 \<and> \<not> bit (0x40 :: u8) 7"
proof -
  let ?p = "\<lparr>program_map = [], cell_playback = [cell 0 0 0x01 0x40, cell 0 0 0x01 0xC0]\<rparr>"
  have loop: "cell_loop ?p 0 1 (0, 0) = Inr (30, 55)"
    by (simp add: cell_loop.simps array_at_def cell_body_def cell_fps_def from_bcd_def cell_def)
  from frame_rate_capture [of "playback_time (cell 0 0 0x01 0x40)" "(0, 0)" ?p 0 1 "(30, 55)"]
    loop
  show ?thesis by (simp add: cell_def)
qed

text \<open>The byte \<open>0xC0\<close> has bit 6 set, and the rate captured from it is 30.\<close>

theorem frame_rate_of_0xC0:
  "bit (0xC0 :: u8) 6
   \<and> fst (cell_body \<lparr>hour = 0, minute = 0, second = 0, frame_u = 0xC0\<rparr> (0, 0)) = 30"
  by (simp add: cell_body_def cell_fps_def bit_iff_odd)

text \<open>
  Claim C6. For every consecutive pair of chapter markers \<open>chapter\<close> and
  \<open>chapter + 1\<close> of a title whose lookups stay inside their tables, the walker's
  loop over the chapters walks the cells of the next marker's program chain from the
  program map entry of this marker minus one to the program map entry of the next
  marker minus two, both included, adds the frames of these cells to the cumulative
  frame counter, writes the chapter start converted from the updated counter, and goes
  on to the next pair with the updated counter and rate. A cell counts for its
  BCD-decoded time in seconds times its frame rate, plus its frame field. The chapter
  starts that a successful run of the walker writes for the title are 0 followed by
  the conversions of the cumulative counter over all pairs, in order.
\<close>

theorem walker_chapter_ranges:
  assumes ti: "array_at (title (tt_srpt vmg)) title_no = Inr ti"
    and vts: "reader (uint (title_set_nr ti)) = Some vts"
    and pair: "chapter < uint (nr_of_ptts ti) - 1"
    and t: "array_at (ttu (vts_ptt_srpt vts)) (uint (vts_ttn ti) - 1) = Inr t"
    and m: "array_at (ptt t) chapter = Inr marker"
    and m': "array_at (ptt t) (chapter + 1) = Inr next_marker"
    and s: "array_at (pgci_srp (vts_pgcit vts)) (uint (pgcn marker) - 1) = Inr srp"
    and s': "array_at (pgci_srp (vts_pgcit vts)) (uint (pgcn next_marker) - 1) = Inr next_srp"
    and e: "array_at (program_map (pgc srp)) (uint (pgn marker) - 1) = Inr entry"
    and e': "array_at (program_map (pgc next_srp)) (uint (pgn next_marker) - 1) = Inr next_entry"
    and range: "uint entry - 1 \<le> uint next_entry - 2 \<longrightarrow>
                0 \<le> uint entry - 1
                \<and> uint next_entry - 2 < int (length (cell_playback (pgc next_srp)))"
  shows "(let cells = map (\<lambda>i. cell_playback (pgc next_srp) ! nat i)
                        [uint entry - 1..uint next_entry - 2];
              overall_frames' = overall_frames
                + sum_list (map (\<lambda>c. cell_frames (playback_time c)) cells);
              fps' = (if uint entry - 1 \<le> uint next_entry - 2
                      then cell_fps (playback_time
                             (cell_playback (pgc next_srp) ! nat (uint next_entry - 2)))
                      else fps)
          in chapter_cells vts (vts_ttn ti) chapter = cells
             \<and> chapter_body vts (vts_ttn ti) chapter (overall_frames, fps)
                 = Inr (overall_frames', fps')
             \<and> chapter_loop vts (nr_of_ptts ti) (vts_ttn ti) chapter (overall_frames, fps) writer
                 = chapter_loop vts (nr_of_ptts ti) (vts_ttn ti) (chapter + 1)
                     (overall_frames', fps')
                     (on_chapter_start (frames_to_timestamp_ms overall_frames' fps') writer))
         \<and> unat (cell_frames dt)
             = (unat (from_bcd (hour dt)) * 3600 + unat (from_bcd (minute dt)) * 60
                  + unat (from_bcd (second dt))) * unat (cell_fps dt)
               + frame_field (frame_u dt)
         \<and> (get_chapters_for_title reader vmg title_no w = Inr w' \<longrightarrow>
               chapter_starts (drop (length (stream w)) (stream w'))
                 = 0 # map sint (cumulative_walk vts (vts_ttn ti)
                         [0..<nat (uint (nr_of_ptts ti) - 1)] (0, 0)))"
proof -
  let ?ttn = "vts_ttn ti"
  let ?cells = "map (\<lambda>i. cell_playback (pgc next_srp) ! nat i)
                        [uint entry - 1..uint next_entry - 2]"
  let ?o = "overall_frames + sum_list (map (\<lambda>c. cell_frames (playback_time c)) ?cells)"
  let ?f = "if uint entry - 1 \<le> uint next_entry - 2
            then cell_fps (playback_time (cell_playback (pgc next_srp) ! nat (uint next_entry - 2)))
            else fps"
  have me: "marker_entry vts ?ttn chapter = Inr (pgc srp, entry)"
    by (simp add: marker_entry_def and_then_def t m s e)
  have me': "marker_entry vts ?ttn (chapter + 1) = Inr (pgc next_srp, next_entry)"
    by (simp add: marker_entry_def and_then_def t m' s' e')
  have cells: "chapter_cells vts ?ttn chapter = ?cells"
    by (simp add: chapter_cells_def me me' cells_between_def)
  have loop: "cell_loop (pgc next_srp) (uint entry - 1) (uint next_entry - 2) (fps, 0)
      = Inr (?f, sum_list (map (\<lambda>c. cell_frames (playback_time c)) ?cells))"
  proof (cases "uint entry - 1 \<le> uint next_entry - 2")
    case True
    with range have "0 \<le> uint entry - 1"
      "uint next_entry - 2 < int (length (cell_playback (pgc next_srp)))" by simp_all
    from cell_loop_eq [OF this, of "(fps, 0)"] show ?thesis by (simp add: cells_between_def)
  next
    case False
    then show ?thesis by (simp add: cell_loop_done)
  qed
  have body: "chapter_body vts ?ttn chapter (overall_frames, fps) = Inr (?o, ?f)"
    by (simp add: chapter_body_def and_then_def me me' Let_def loop)
  have step: "chapter_loop vts (nr_of_ptts ti) ?ttn chapter (overall_frames, fps) writer
      = chapter_loop vts (nr_of_ptts ti) ?ttn (chapter + 1) (?o, ?f)
          (on_chapter_start (frames_to_timestamp_ms ?o ?f) writer)"
    using pair by (simp add: chapter_loop_step body)
  have frames: "unat (cell_frames dt)
             = (unat (from_bcd (hour dt)) * 3600 + unat (from_bcd (minute dt)) * 60
                  + unat (from_bcd (second dt))) * unat (cell_fps dt)
               + frame_field (frame_u dt)"
    by (simp only: unat_cell_frames cell_frames_nat_def)
  have whole: "chapter_starts (drop (length (stream w)) (stream w'))
      = 0 # map sint (cumulative_walk vts ?ttn [0..<nat (uint (nr_of_ptts ti) - 1)] (0, 0))"
    if "get_chapters_for_title reader vmg title_no w = Inr w'"
    using get_chapters_walk [OF that ti vts] .
  from cells body step frames whole show ?thesis
    unfolding Let_def by blast
qed

text \<open>
  The second title of the example disc: its first pair of markers has the entries 1
  and 4, the cells 0 to 2 and 350 frames; the run writes the chapter starts 0, 11678
  and 21688.
\<close>

theorem walker_chapter_ranges_witness:
  "array_at (title (tt_srpt example_vmg)) 1
     = Inr \<lparr>nr_of_ptts = 3, title_set_nr = 1, vts_ttn = 2\<rparr>
   \<and> example_disc 1 = Some example_vts
   \<and> (0 :: int) < uint (3 :: u16) - 1
   \<and> uint (1 :: u8) - 1 \<le> uint (4 :: u8) - 2
   \<and> chapter_cells example_vts 2 0
       = [cell 0 0 0x03 0xD0, cell 0 0 0x06 0xE0, cell 0 0 0x01 0xE0]
   \<and> chapter_body example_vts 2 0 (0, 0) = Inr (350, 30)
   \<and> chapter_loop example_vts 3 2 0 (0, 0) (writer_construct [])
       = chapter_loop example_vts 3 2 1 (350, 30)
           (on_chapter_start 11678 (writer_construct []))
   \<and> unat (cell_frames \<lparr>hour = 0, minute = 0, second = 0x06, frame_u = 0xE0\<rparr>) = 200
   \<and> get_chapters_for_title example_disc example_vmg 1 (writer_construct [])
       = Inr \<lparr>stream = [Chapters_open, EditionEntry_open, ChapterAtom 0 1,
                ChapterAtom 11678 2, ChapterAtom 21688 3, EditionEntry_close],
              chapter_num = 4\<rparr>
   \<and> map sint (cumulative_walk example_vts 2 [0..<nat (uint (3 :: u16) - 1)] (0, 0))
       = [11678, 21688]"
proof -
  let ?ti = "\<lparr>nr_of_ptts = 3, title_set_nr = 1, vts_ttn = 2\<rparr>"
  let ?t = "\<lparr>ptt = [\<lparr>pgcn = 1, pgn = 1\<rparr>, \<lparr>pgcn = 1, pgn = 2\<rparr>, \<lparr>pgcn = 1, pgn = 3\<rparr>]\<rparr>"
  let ?p = "\<lparr>program_map = [1, 4, 5],
                  cell_playback =
                    [cell 0 0 0x03 0xD0, cell 0 0 0x06 0xE0, cell 0 0 0x01 0xE0,
                     cell 0 0 0x10 0xC0, cell 0 0 0x05 0xC0]\<rparr>"
  let ?w' = "\<lparr>stream = [Chapters_open, EditionEntry_open, ChapterAtom 0 1,
                ChapterAtom 11678 2, ChapterAtom 21688 3, EditionEntry_close],
              chapter_num = 4\<rparr>"
  have ti: "array_at (title (tt_srpt example_vmg)) 1 = Inr ?ti"
    by (simp add: example_vmg_def array_at_def)
  have vts: "example_disc (uint (title_set_nr ?ti)) = Some example_vts"
    by (simp add: example_disc_def)
  have pair: "(0 :: int) < uint (nr_of_ptts ?ti) - 1" by simp
  have t: "array_at (ttu (vts_ptt_srpt example_vts)) (uint (vts_ttn ?ti) - 1) = Inr ?t"
    by (simp add: example_vts_def array_at_def)
  have m: "array_at (ptt ?t) 0 = Inr \<lparr>pgcn = 1, pgn = 1\<rparr>"
    by (simp add: array_at_def)
  have m': "array_at (ptt ?t) (0 + 1) = Inr \<lparr>pgcn = 1, pgn = 2\<rparr>"
    by (simp add: array_at_def)
  have s: "array_at (pgci_srp (vts_pgcit example_vts)) (uint (pgcn \<lparr>pgcn = 1, pgn = 1\<rparr>) - 1)
      = Inr \<lparr>pgc = ?p\<rparr>"
    by (simp add: example_vts_def array_at_def)
  have s': "array_at (pgci_srp (vts_pgcit example_vts)) (uint (pgcn \<lparr>pgcn = 1, pgn = 2\<rparr>) - 1)
      = Inr \<lparr>pgc = ?p\<rparr>"
    by (simp add: example_vts_def array_at_def)
  have e: "array_at (program_map (pgc \<lparr>pgc = ?p\<rparr>)) (uint (pgn \<lparr>pgcn = 1, pgn = 1\<rparr>) - 1)
      = Inr 1"
    by (simp add: array_at_def)
  have e': "array_at (program_map (pgc \<lparr>pgc = ?p\<rparr>)) (uint (pgn \<lparr>pgcn = 1, pgn = 2\<rparr>) - 1)
      = Inr 4"
    by (simp add: array_at_def)
  have range: "uint (1 :: u8) - 1 \<le> uint (4 :: u8) - 2 \<longrightarrow>
      0 \<le> uint (1 :: u8) - 1
      \<and> uint (4 :: u8) - 2 < int (length (cell_playback (pgc \<lparr>pgc = ?p\<rparr>)))"
    by simp
  have frames: "cell_frames (playback_time (cell 0 0 0x03 0xD0)) = 100"
    "cell_frames (playback_time (cell 0 0 0x06 0xE0)) = 200"
    "cell_frames (playback_time (cell 0 0 0x01 0xE0)) = 50"
    by (simp_all add: cell_def cell_frames_def cell_fps_def from_bcd_def)
  have fps: "cell_fps (playback_time (cell 0 0 0x01 0xE0)) = 30"
    by (simp add: cell_def cell_fps_def)
  have ts: "frames_to_timestamp_ms 350 30 = 11678"
    by (simp add: frames_to_timestamp_ms_def)
  have run: "get_chapters_for_title example_disc example_vmg 1 (writer_construct []) = Inr ?w'"
    by (simp add: example_vts_def example_vmg_def example_disc_def cell_def
      get_chapters_for_title_def and_then_def array_at_def ifo_open_def Let_def
      on_title_start_def on_chapter_start_def on_title_end_def writer_construct_def
      writer_destruct_def chapter_body_def marker_entry_def cell_body_def cell_fps_def
      from_bcd_def frames_to_timestamp_ms_def chapter_loop.simps cell_loop.simps)
  have one: "cell_frames \<lparr>hour = 0, minute = 0, second = 0x06, frame_u = 0xE0\<rparr> = 200"
    by (simp add: cell_frames_def cell_fps_def from_bcd_def)
  note inst = walker_chapter_ranges [where vmg = example_vmg and title_no = 1 and ti = ?ti
        and reader = example_disc and vts = example_vts and ?chapter = 0 and t = ?t
        and marker = "\<lparr>pgcn = 1, pgn = 1\<rparr>" and next_marker = "\<lparr>pgcn = 1, pgn = 2\<rparr>"
        and srp = "\<lparr>pgc = ?p\<rparr>" and next_srp = "\<lparr>pgc = ?p\<rparr>"
        and entry = 1 and next_entry = 4 and overall_frames = 0 and fps = 0
        and writer = "writer_construct []"
        and dt = "\<lparr>hour = 0, minute = 0, second = 0x06, frame_u = 0xE0\<rparr>"
        and w = "writer_construct []" and w' = ?w',
      OF ti vts pair t m m' s s' e e' range]
  from inst run have walk: "map sint (cumulative_walk example_vts 2
      [0..<nat (uint (3 :: u16) - 1)] (0, 0)) = [11678, 21688]"
    by (simp add: writer_construct_def)
  from inst have cells: "chapter_cells example_vts 2 0
       = [cell 0 0 0x03 0xD0, cell 0 0 0x06 0xE0, cell 0 0 0x01 0xE0]"
    by (simp add: Let_def upto_rec1)
  from inst have body: "chapter_body example_vts 2 0 (0, 0) = Inr (350, 30)"
    by (simp add: Let_def upto_rec1 frames fps)
  from inst have step: "chapter_loop example_vts 3 2 0 (0, 0) (writer_construct [])
       = chapter_loop example_vts 3 2 1 (350, 30)
           (on_chapter_start 11678 (writer_construct []))"
    by (simp add: Let_def upto_rec1 frames fps ts)
  from ti vts cells body step one run walk show ?thesis by simp
qed




text \<open>
  Claim C8. For a title with exactly one chapter marker, whose title set opens, the
  loop over the pairs of markers runs no iteration, and the walker writes the opening
  of the edition, one chapter atom at timestamp 0 and the closing of the edition.
\<close>

theorem single_marker_title:
  assumes "array_at (title (tt_srpt vmg)) title_no = Inr ti"
    and "nr_of_ptts ti = 1"
    and "reader (uint (title_set_nr ti)) = Some vts"
  shows "chapter_loop vts (nr_of_ptts ti) (vts_ttn ti) 0 st w0 = Inr w0
         \<and> get_chapters_for_title reader vmg title_no w
             = Inr (w\<lparr>stream := stream w @ [EditionEntry_open, ChapterAtom 0 1, EditionEntry_close],
                      chapter_num := 2\<rparr>)"
proof -
  have loop: "chapter_loop vts (nr_of_ptts ti) (vts_ttn ti) 0 st' w' = Inr w'" for st' w'
    using assms(2) by (simp add: chapter_loop_done)
  show ?thesis
    by (simp add: loop get_chapters_for_title_def and_then_def assms(1,3) ifo_open_def Let_def
        on_title_start_def on_chapter_start_def on_title_end_def)
qed

text \<open>The first title of the example disc.\<close>

theorem single_marker_title_witness:
  "array_at (title (tt_srpt example_vmg)) 0
     = Inr \<lparr>nr_of_ptts = 1, title_set_nr = 1, vts_ttn = 1\<rparr>
   \<and> example_disc 1 = Some example_vts
   \<and> get_chapters_for_title example_disc example_vmg 0 (writer_construct [])
       = Inr \<lparr>stream = [Chapters_open, EditionEntry_open, ChapterAtom 0 1, EditionEntry_close],
              chapter_num = 2\<rparr>"
proof -
  have a: "array_at (title (tt_srpt example_vmg)) 0
     = Inr \<lparr>nr_of_ptts = 1, title_set_nr = 1, vts_ttn = 1\<rparr>"
    by (simp add: example_vmg_def array_at_def)
  have b: "nr_of_ptts \<lparr>nr_of_ptts = 1, title_set_nr = 1, vts_ttn = 1\<rparr> = 1" by simp
  have c: "example_disc (uint (title_set_nr \<lparr>nr_of_ptts = 1, title_set_nr = 1, vts_ttn = 1\<rparr>))
      = Some example_vts"
    by (simp add: example_disc_def)
  from single_marker_title [where vmg = example_vmg and title_no = 0
      and ti = "\<lparr>nr_of_ptts = 1, title_set_nr = 1, vts_ttn = 1\<rparr>"
      and reader = example_disc and vts = example_vts
      and w = "writer_construct []", OF a b c] a c
  show ?thesis by (simp add: writer_construct_def)
qed

text \<open>
  Claim C7, as amended. For every title that the walker processes, the first chapter
  start is 0. The chapter starts are non-decreasing when every cell read for the title
  carries the same rate (25 or 30) and the frames of the title, times the numerator of
  that rate, stay below \<open>2^32\<close>.
\<close>

theorem first_timestamp_0_and_sorted:
  assumes run: "get_chapters_for_title reader vmg title_no w = Inr w'"
  shows "chapter_starts (drop (length (stream w)) (stream w')) \<noteq> []
         \<and> hd (chapter_starts (drop (length (stream w)) (stream w'))) = 0
         \<and> (array_at (title (tt_srpt vmg)) title_no = Inr ti
              \<and> reader (uint (title_set_nr ti)) = Some vts
              \<and> (r = 25 \<or> r = 30)
              \<and> walk_single_rate vts (vts_ttn ti) (nr_of_ptts ti) r
              \<and> (if r = 30 then 1001 else 1000)
                    * title_frames vts (vts_ttn ti) (nr_of_ptts ti) < 2 ^ 32
              \<longrightarrow> sorted (chapter_starts (drop (length (stream w)) (stream w'))))"
proof -
  have "sorted (chapter_starts (drop (length (stream w)) (stream w')))"
    if "array_at (title (tt_srpt vmg)) title_no = Inr ti"
      and "reader (uint (title_set_nr ti)) = Some vts"
      and "r = 25 \<or> r = 30"
      and "walk_single_rate vts (vts_ttn ti) (nr_of_ptts ti) r"
      and "(if r = 30 then 1001 else 1000)
            * title_frames vts (vts_ttn ti) (nr_of_ptts ti) < 2 ^ 32"
    using sorted_without_wrap [OF run that] by simp
  with get_chapters_first_timestamp [OF run] show ?thesis by blast
qed

text \<open>The second title of the example disc: 650 frames at rate 30.\<close>

theorem first_timestamp_0_and_sorted_witness:
  "get_chapters_for_title example_disc example_vmg 1 (writer_construct [])
     = Inr \<lparr>stream = [Chapters_open, EditionEntry_open, ChapterAtom 0 1,
                ChapterAtom 11678 2, ChapterAtom 21688 3, EditionEntry_close],
            chapter_num = 4\<rparr>
   \<and> array_at (title (tt_srpt example_vmg)) 1
       = Inr \<lparr>nr_of_ptts = 3, title_set_nr = 1, vts_ttn = 2\<rparr>
   \<and> example_disc 1 = Some example_vts
   \<and> walk_single_rate example_vts 2 3 30
   \<and> title_frames example_vts 2 3 = 650
   \<and> chapter_starts (drop (length (stream (writer_construct [])))
         [Chapters_open, EditionEntry_open, ChapterAtom 0 1,
          ChapterAtom 11678 2, ChapterAtom 21688 3, EditionEntry_close])
       = [0, 11678, 21688]
   \<and> hd (chapter_starts (drop (length (stream (writer_construct [])))
         [Chapters_open, EditionEntry_open, ChapterAtom 0 1,
          ChapterAtom 11678 2, ChapterAtom 21688 3, EditionEntry_close])) = 0
   \<and> sorted (chapter_starts (drop (length (stream (writer_construct [])))
         [Chapters_open, EditionEntry_open, ChapterAtom 0 1,
          ChapterAtom 11678 2, ChapterAtom 21688 3, EditionEntry_close]))"
proof -
  let ?ti = "\<lparr>nr_of_ptts = 3, title_set_nr = 1, vts_ttn = 2\<rparr>"
  let ?w' = "\<lparr>stream = [Chapters_open, EditionEntry_open, ChapterAtom 0 1,
                ChapterAtom 11678 2, ChapterAtom 21688 3, EditionEntry_close],
            chapter_num = 4\<rparr>"
  have run: "get_chapters_for_title example_disc example_vmg 1 (writer_construct []) = Inr ?w'"
    by (simp add: example_vts_def example_vmg_def example_disc_def cell_def
      get_chapters_for_title_def and_then_def array_at_def ifo_open_def Let_def
      on_title_start_def on_chapter_start_def on_title_end_def writer_construct_def
      writer_destruct_def chapter_body_def marker_entry_def cell_body_def cell_fps_def
      from_bcd_def frames_to_timestamp_ms_def chapter_loop.simps cell_loop.simps)
  have ti: "array_at (title (tt_srpt example_vmg)) 1 = Inr ?ti"
    by (simp add: example_vmg_def array_at_def)
  have vts: "example_disc (uint (title_set_nr ?ti)) = Some example_vts"
    by (simp add: example_disc_def)
  have n: "nat (uint (3 :: u16) - 1) = 2" by simp
  have up: "[0..<2] = [0, Suc 0]" by (simp add: upt_rec)
  have c0: "chapter_cells example_vts 2 0
      = [cell 0 0 0x03 0xD0, cell 0 0 0x06 0xE0, cell 0 0 0x01 0xE0]"
    by (simp add: chapter_cells_def marker_entry_def and_then_def array_at_def example_vts_def
        cells_between_def upto_rec1)
  have c1: "chapter_cells example_vts 2 1 = [cell 0 0 0x10 0xC0]"
    by (simp add: chapter_cells_def marker_entry_def and_then_def array_at_def example_vts_def
        cells_between_def upto_rec1)
  have rate: "walk_single_rate example_vts 2 3 30"
    by (simp add: walk_single_rate_def chapter_rate_is_def n up c0 c1 cell_def cell_fps_def)
  have frames: "title_frames example_vts 2 3 = 650"
    by (simp add: title_frames_def chapter_frames_def n up c0 c1 cell_def cell_frames_nat_def
        frame_field_def cell_fps_def from_bcd_def)
  from first_timestamp_0_and_sorted [OF run, where ti = ?ti and vts = example_vts and r = 30]
    run ti vts rate frames
  show ?thesis by (simp add: writer_construct_def)
qed

text \<open>
  Two titles whose chapter starts decrease. The first is at rate 30 throughout and its
  second chapter ends after 40 hours: 4320000 frames times 1001 wrap around \<open>2^32\<close>.
  The second stays far below the wrap, but its cells change from rate 25 to rate 30:
  15000 frames at rate 25 are 600000 ms, 15001 frames at rate 30 are 500533 ms.
\<close>

theorem timestamps_can_decrease:
  "get_chapters_for_title long_disc long_vmg 0 (writer_construct [])
     = Inr \<lparr>stream = [Chapters_open, EditionEntry_open, ChapterAtom 0 1,
                ChapterAtom 140540400 2, ChapterAtom 978423 3, EditionEntry_close],
            chapter_num = 4\<rparr>
   \<and> chapter_starts [Chapters_open, EditionEntry_open, ChapterAtom 0 1,
                ChapterAtom 140540400 2, ChapterAtom 978423 3, EditionEntry_close]
       = [0, 140540400, 978423]
   \<and> \<not> sorted [0, 140540400, 978423 :: int]
   \<and> get_chapters_for_title mixed_disc mixed_vmg 0 (writer_construct [])
       = Inr \<lparr>stream = [Chapters_open, EditionEntry_open, ChapterAtom 0 1,
                ChapterAtom 600000 2, ChapterAtom 500533 3, EditionEntry_close],
              chapter_num = 4\<rparr>
   \<and> chapter_starts [Chapters_open, EditionEntry_open, ChapterAtom 0 1,
                ChapterAtom 600000 2, ChapterAtom 500533 3, EditionEntry_close]
       = [0, 600000, 500533]
   \<and> \<not> sorted [0, 600000, 500533 :: int]"
  by (simp add: long_vts_def long_vmg_def long_disc_def mixed_vts_def mixed_vmg_def
      mixed_disc_def cell_def
      get_chapters_for_title_def and_then_def array_at_def ifo_open_def Let_def
      on_title_start_def on_chapter_start_def on_title_end_def writer_construct_def
      writer_destruct_def chapter_body_def marker_entry_def cell_body_def cell_fps_def
      from_bcd_def frames_to_timestamp_ms_def chapter_loop.simps cell_loop.simps)

section \<open>The title selector\<close>

text \<open>
  Claim C1: a non-zero selector \<open>s\<close> at or above the number of titles is refused
  with a diagnostic that reports both numbers, exit code 1 and no output, and any other
  non-zero selector processes the title number \<open>s\<close>, counted from 1. The program at
  concrete inputs: on the example disc of two titles, selector 1 writes the three
  chapters of the second title, not the single chapter of the first, and selector 2 is
  refused although the disc has a second title; on a disc of one title, selector 1 is
  refused. The selector is used as an index counted from 0, while 0 itself stands for
  all titles.
\<close>

theorem selector_off_by_one:
  "main 3 (Stoi 1) (Some example_disc)
     = Some \<lparr>exit_code = 0,
             cout = [Chapters_open, EditionEntry_open, ChapterAtom 0 1, ChapterAtom 11678 2,
                     ChapterAtom 21688 3, EditionEntry_close, Chapters_close],
             cerr = []\<rparr>
   \<and> get_chapters_for_title example_disc example_vmg 0 (writer_construct [])
       = Inr \<lparr>stream = [Chapters_open, EditionEntry_open, ChapterAtom 0 1, EditionEntry_close],
              chapter_num = 2\<rparr>
   \<and> get_chapters_for_title example_disc example_vmg 1 (writer_construct [])
       = Inr \<lparr>stream = [Chapters_open, EditionEntry_open, ChapterAtom 0 1,
                ChapterAtom 11678 2, ChapterAtom 21688 3, EditionEntry_close],
              chapter_num = 4\<rparr>
   \<and> main 3 (Stoi 2) (Some example_disc)
       = Some \<lparr>exit_code = 1, cout = [], cerr = [Title_requested 2 2]\<rparr>
   \<and> main 3 (Stoi 1) (Some long_disc)
       = Some \<lparr>exit_code = 1, cout = [], cerr = [Title_requested 1 1]\<rparr>"
  by (simp add: main_def parse_title_def try_block_def dvd_open_def finish_def
      example_vts_def example_vmg_def example_disc_def long_vmg_def long_disc_def cell_def
      get_chapters_for_title_def and_then_def array_at_def ifo_open_def Let_def
      on_title_start_def on_chapter_start_def on_title_end_def writer_construct_def
      writer_destruct_def chapter_body_def marker_entry_def cell_body_def cell_fps_def
      from_bcd_def frames_to_timestamp_ms_def
      chapter_loop.simps cell_loop.simps word_le_nat_alt)

end
